(* ===== verification/Ewss_Prelude.thy ===== *)
theory Ewss_Prelude
  imports Main "HOL-Library.Word"
begin

text \<open>
  Shared vocabulary of the development: the names of the machine types the C++ source uses, the
  conversion of string literals to bytes, the collections of simplification rules the component
  theories fill, and the generic facts on lists, words and modular indices they share.
\<close>

unbundle bit_operations_syntax

section \<open>Machine types\<close>

type_synonym u8 = "8 word"
type_synonym u16 = "16 word"
type_synonym u32 = "32 word"
type_synonym u64 = "64 word"
type_synonym bytes = "u8 list"

text \<open>
  Bytes of a string literal. The source views the same memory as \<^verbatim>\<open>char\<close> and as
  \<^verbatim>\<open>uint8_t\<close>; the model has bytes only.
\<close>

definition bytes_of :: "string \<Rightarrow> bytes" where
  "bytes_of s = map (\<lambda>c. of_char c) s"

lemma length_bytes_of [simp]: "length (bytes_of s) = length s"
  by (simp add: bytes_of_def)

section \<open>Rule collections\<close>

named_theorems ring_simps \<open>what ring buffer operations do to the stored queue\<close>
named_theorems conn_frame \<open>fields of a connection that an operation leaves alone\<close>

section \<open>Modular indices\<close>

lemma mod_succ_plus: "(Suc i mod c + n) mod c = Suc (i + n) mod (c::nat)"
  by (simp add: mod_add_left_eq)

lemma mod_plus_inj:
  assumes "(r + i) mod c = (r + j) mod (c::nat)" and "i < c" and "j < c"
  shows "i = j"
proof -
  have "int ((r + i) mod c) = int ((r + j) mod c)" using assms(1) by simp
  then have "(int r + int i) mod int c = (int r + int j) mod int c"
    by (simp add: zmod_int)
  then have "int c dvd (int i - int j)"
    by (simp add: mod_eq_dvd_iff)
  moreover have "\<bar>int i - int j\<bar> < int c" using assms(2,3) by linarith
  ultimately have "int i - int j = 0" by (metis abs_of_nat dvd_imp_le_int linorder_not_le)
  then show ?thesis by simp
qed

lemma mod_below: "x < c \<Longrightarrow> x mod c = (x::nat)"
  by simp

section \<open>Lists\<close>

lemma drop_map_upt: "drop k (map f [0..<n]) = map (\<lambda>i. f (i + k)) [0..<n - k]"
  by (rule nth_equalityI) (simp_all add: add.commute)

lemma take_map_upt: "take k (map f [0..<n]) = map f [0..<min k n]"
  by (simp add: take_map min_def)

section \<open>Words\<close>

lemma small_bits:
  assumes "w < 2 ^ n" and "bit (w :: 'a::len word) m"
  shows "m < n"
proof -
  from assms have "bit (w AND mask n) m" by (simp add: less_mask_eq)
  then show ?thesis by (simp add: bit_simps)
qed

lemma and_255: "w AND 255 = take_bit 8 (w :: 'a::len word)"
  by (simp add: take_bit_eq_mask mask_eq_exp_minus_1)

lemma and_63: "w AND 63 = take_bit 6 (w :: 'a::len word)"
  by (simp add: take_bit_eq_mask mask_eq_exp_minus_1)

lemma and_127: "w AND 127 = take_bit 7 (w :: 'a::len word)"
  by (simp add: take_bit_eq_mask mask_eq_exp_minus_1)

lemma and_128: "w AND 128 \<noteq> 0 \<longleftrightarrow> bit (w :: 'a::len word) 7"
  using and_exp_eq_0_iff_not_bit [of w 7] by simp

lemma bit_128: "bit (128 :: int) n \<longleftrightarrow> n = 7"
  using bit_exp_iff [of 7 n, where ?'a = int] by auto

end
