(* ===== verification/Object_Pool.thy ===== *)
theory Object_Pool
  imports Ewss_Prelude
begin

text \<open>
  \<^verbatim>\<open>ObjectPool<T, MaxSlots>\<close> of \<^verbatim>\<open>src/include/ewss.hpp\<close>: a stack of free slot
  indices and a table of active slots. \<open>MaxSlots\<close> is the length of both arrays. The slots' raw
  memory is not part of the model.
\<close>

section \<open>State and operations\<close>

record ObjectPool =
  free_list :: "nat list"
  free_count :: nat
  slot_active :: "bool list"

definition pool_capacity :: "ObjectPool \<Rightarrow> nat" where
  "pool_capacity p = length (free_list p)"

fun pool_reset_loop :: "nat list \<Rightarrow> ObjectPool \<Rightarrow> ObjectPool" where
  "pool_reset_loop [] p = p"
| "pool_reset_loop (i # is) p =
     pool_reset_loop is
       (p\<lparr>free_list := (free_list p)[i := i], slot_active := (slot_active p)[i := False]\<rparr>)"

definition pool_reset :: "ObjectPool \<Rightarrow> ObjectPool" where
  "pool_reset p =
     (let p' = pool_reset_loop [0..<pool_capacity p] p in p'\<lparr>free_count := pool_capacity p\<rparr>)"

text \<open>The constructor value-initialises the arrays and calls \<^verbatim>\<open>reset\<close>.\<close>

definition pool_init :: "nat \<Rightarrow> ObjectPool" where
  "pool_init n =
     pool_reset \<lparr>free_list = replicate n 0, free_count = 0, slot_active = replicate n False\<rparr>"

text \<open>\<^verbatim>\<open>static_cast<int32_t>\<close> of an index, and the conversion back to an array index.\<close>

definition to_int32 :: "nat \<Rightarrow> int" where
  "to_int32 n = sint (word_of_nat n :: 32 word)"

definition array_index :: "int \<Rightarrow> nat" where
  "array_index idx = unat (word_of_int idx :: u64)"

definition pool_acquire :: "ObjectPool \<Rightarrow> int \<times> ObjectPool" where
  "pool_acquire p =
     (if free_count p = 0 then (-1, p)
      else let p1 = p\<lparr>free_count := free_count p - 1\<rparr>;
               idx = to_int32 (free_list p1 ! free_count p1)
           in (idx, p1\<lparr>slot_active := (slot_active p1)[array_index idx := True]\<rparr>))"

definition pool_release :: "int \<Rightarrow> ObjectPool \<Rightarrow> ObjectPool" where
  "pool_release idx p =
     (if idx < 0 \<or> array_index idx \<ge> pool_capacity p then p
      else if \<not> slot_active p ! array_index idx then p
      else p\<lparr>slot_active := (slot_active p)[array_index idx := False],
             free_list := (free_list p)[free_count p := array_index idx],
             free_count := free_count p + 1\<rparr>)"

definition pool_available :: "ObjectPool \<Rightarrow> nat" where
  "pool_available p = free_count p"

definition pool_in_use :: "ObjectPool \<Rightarrow> nat" where
  "pool_in_use p = pool_capacity p - free_count p"

definition pool_is_active :: "int \<Rightarrow> ObjectPool \<Rightarrow> bool" where
  "pool_is_active idx p \<longleftrightarrow>
     idx \<ge> 0 \<and> array_index idx < pool_capacity p \<and> slot_active p ! array_index idx"

section \<open>Invariant\<close>

text \<open>
  The first \<open>free_count\<close> entries of the list are exactly the inactive slots, each once. The
  capacity bound is what \<^verbatim>\<open>int32_t\<close> indices can address.
\<close>

definition pool_free :: "ObjectPool \<Rightarrow> nat list" where
  "pool_free p = take (free_count p) (free_list p)"

definition pool_inv :: "ObjectPool \<Rightarrow> bool" where
  "pool_inv p \<longleftrightarrow> pool_capacity p \<le> 2 ^ 31 \<and> length (slot_active p) = pool_capacity p \<and>
     free_count p \<le> pool_capacity p \<and> distinct (pool_free p) \<and>
     set (pool_free p) = {i. i < pool_capacity p \<and> \<not> slot_active p ! i}"

definition pool_active :: "ObjectPool \<Rightarrow> nat set" where
  "pool_active p = {i. i < pool_capacity p \<and> slot_active p ! i}"

lemma pool_reset_loop_eq:
  "length (slot_active p) = pool_capacity p \<Longrightarrow> n \<le> pool_capacity p \<Longrightarrow>
   pool_reset_loop [k..<n] p = p\<lparr>free_list := take k (free_list p) @ [k..<n] @ drop (max k n) (free_list p),
     slot_active := take k (slot_active p) @ replicate (n - k) False @ drop (max k n) (slot_active p)\<rparr>"
proof (induction "n - k" arbitrary: k p)
  case 0
  then show ?case by (simp add: max_def)
next
  case (Suc m)
  let ?p = "p\<lparr>free_list := (free_list p)[k := k], slot_active := (slot_active p)[k := False]\<rparr>"
  have k: "k < n" using Suc.hyps(2) by simp
  have "pool_reset_loop [Suc k..<n] ?p =
      ?p\<lparr>free_list := take (Suc k) (free_list ?p) @ [Suc k..<n] @ drop (max (Suc k) n) (free_list ?p),
         slot_active := take (Suc k) (slot_active ?p) @ replicate (n - Suc k) False @
           drop (max (Suc k) n) (slot_active ?p)\<rparr>"
    using Suc.hyps Suc.prems k by (intro Suc.hyps(1)) (auto simp: pool_capacity_def)
  with k Suc.prems show ?case
    by (simp add: upt_conv_Cons pool_capacity_def take_Suc_conv_app_nth max_def
        Suc_diff_Suc [symmetric])
qed

lemma pool_reset_eq:
  "length (slot_active p) = pool_capacity p \<Longrightarrow>
   pool_reset p = p\<lparr>free_list := [0..<pool_capacity p], free_count := pool_capacity p,
     slot_active := replicate (pool_capacity p) False\<rparr>"
  using pool_reset_loop_eq [of p "pool_capacity p" 0]
  by (simp add: pool_reset_def Let_def) (simp add: pool_capacity_def)

lemma pool_init_inv: "n \<le> 2 ^ 31 \<Longrightarrow> pool_inv (pool_init n)"
  by (auto simp: pool_init_def pool_reset_eq pool_inv_def pool_free_def pool_capacity_def)

lemma to_int32_small: "n < 2 ^ 31 \<Longrightarrow> to_int32 n = int n"
  by (simp add: to_int32_def sint_uint unsigned_of_nat take_bit_nat_eq_self
      signed_take_bit_int_eq_self)

lemma array_index_nat: "0 \<le> idx \<Longrightarrow> idx < 2 ^ 64 \<Longrightarrow> array_index idx = nat idx"
  by (simp add: array_index_def unat_eq_nat_uint uint_word_of_int_eq take_bit_int_eq_self)

section \<open>Operations keep the invariant\<close>

lemma pool_in_use_active:
  assumes "pool_inv p" shows "pool_in_use p = card (pool_active p)"
proof -
  have "card (set (pool_free p)) = free_count p"
    using assms distinct_card [of "pool_free p"]
    by (simp only: pool_inv_def) (simp add: pool_free_def pool_capacity_def)
  moreover have "set (pool_free p) \<union> pool_active p = {..<pool_capacity p}"
    "set (pool_free p) \<inter> pool_active p = {}"
    using assms by (auto simp: pool_inv_def pool_active_def)
  then have "card (set (pool_free p)) + card (pool_active p) = pool_capacity p"
    by (metis card_Un_disjoint card_lessThan finite_Un finite_lessThan)
  ultimately show ?thesis by (simp add: pool_in_use_def)
qed

lemma pool_acquire_fail: "free_count p = 0 \<Longrightarrow> pool_acquire p = (-1, p)"
  by (simp add: pool_acquire_def)

lemma pool_acquire_slot:
  assumes inv: "pool_inv p" and "0 < free_count p"
  obtains i where "i < pool_capacity p" "i \<notin> pool_active p"
    "pool_acquire p =
       (int i, p\<lparr>free_count := free_count p - 1, slot_active := (slot_active p)[i := True]\<rparr>)"
    "pool_free p = take (free_count p - 1) (free_list p) @ [i]"
proof -
  obtain n where n: "free_count p = Suc n" using assms(2) gr0_conv_Suc by blast
  let ?i = "free_list p ! n"
  have free: "pool_free p = take n (free_list p) @ [?i]"
    using inv n by (simp add: pool_free_def pool_inv_def pool_capacity_def take_Suc_conv_app_nth)
  then have "?i \<in> set (pool_free p)" by simp
  then have i: "?i < pool_capacity p" "\<not> slot_active p ! ?i" using inv by (auto simp: pool_inv_def)
  have "pool_capacity p \<le> 2 ^ 31" using inv by (simp add: pool_inv_def)
  with i have small: "?i < 2 ^ 31" by linarith
  then have "to_int32 ?i = int ?i" "array_index (int ?i) = ?i"
    using array_index_nat [of "int ?i"] by (simp_all add: to_int32_small)
  with that [of ?i] i free n show ?thesis
    by (simp add: pool_acquire_def Let_def pool_active_def)
qed

lemma pool_acquire_inv:
  assumes "pool_inv p" shows "pool_inv (snd (pool_acquire p))"
proof (cases "free_count p = 0")
  case False
  then have "0 < free_count p" by simp
  from pool_acquire_slot [OF assms this] obtain i where i: "i < pool_capacity p" and
    eq: "pool_acquire p =
       (int i, p\<lparr>free_count := free_count p - 1, slot_active := (slot_active p)[i := True]\<rparr>)"
    and free: "pool_free p = take (free_count p - 1) (free_list p) @ [i]"
    by metis
  have dist: "distinct (take (free_count p - 1) (free_list p) @ [i])"
    and set: "set (take (free_count p - 1) (free_list p) @ [i]) =
      {j. j < pool_capacity p \<and> \<not> slot_active p ! j}"
    using assms free by (simp_all add: pool_inv_def)
  have "set (take (free_count p - 1) (free_list p)) =
      {j. j < pool_capacity p \<and> \<not> (slot_active p)[i := True] ! j}"
  proof -
    have "set (take (free_count p - 1) (free_list p)) =
        {j. j < pool_capacity p \<and> \<not> slot_active p ! j} - {i}"
      using dist set by auto
    then show ?thesis using assms i by (auto simp: nth_list_update pool_inv_def)
  qed
  moreover have "free_count p - Suc 0 \<le> length (free_list p)"
    using assms unfolding pool_inv_def pool_capacity_def by linarith
  ultimately show ?thesis using dist assms
    by (simp add: eq pool_inv_def pool_free_def pool_capacity_def)
qed (simp add: assms pool_acquire_fail)

lemma pool_acquire_active:
  assumes "pool_inv p" and "0 < free_count p"
  shows "fst (pool_acquire p) = int i \<longrightarrow>
    i \<notin> pool_active p \<and> pool_active (snd (pool_acquire p)) = insert i (pool_active p)"
  by (rule pool_acquire_slot [OF assms])
     (use assms(1) in \<open>auto simp: pool_active_def pool_capacity_def pool_inv_def nth_list_update\<close>)

lemma pool_release_noop: "\<not> pool_is_active idx p \<Longrightarrow> pool_release idx p = p"
  by (auto simp: pool_release_def pool_is_active_def not_le)

lemma pool_release_active:
  assumes inv: "pool_inv p" and act: "pool_is_active idx p"
  shows "pool_inv (pool_release idx p)"
    and "pool_active (pool_release idx p) = pool_active p - {array_index idx}"
    and "free_count (pool_release idx p) = free_count p + 1"
proof -
  let ?i = "array_index idx"
  have i: "?i < pool_capacity p" "slot_active p ! ?i" "0 \<le> idx"
    using act by (auto simp: pool_is_active_def)
  have eq: "pool_release idx p = p\<lparr>slot_active := (slot_active p)[?i := False],
      free_list := (free_list p)[free_count p := ?i], free_count := free_count p + 1\<rparr>"
    using i by (simp add: pool_release_def)
  show "free_count (pool_release idx p) = free_count p + 1" by (simp add: eq)
  show "pool_active (pool_release idx p) = pool_active p - {?i}"
    using inv i by (auto simp: eq pool_active_def pool_capacity_def pool_inv_def nth_list_update)
  have "card (pool_active p) > 0"
    using i by (auto simp: pool_active_def card_gt_0_iff)
  then have room: "free_count p < pool_capacity p"
    using pool_in_use_active [OF inv] by (simp add: pool_in_use_def)
  then have free: "pool_free (pool_release idx p) = pool_free p @ [?i]"
    by (simp add: eq pool_free_def pool_capacity_def take_Suc_conv_app_nth)
  have set: "set (pool_free p) = {j. j < pool_capacity p \<and> \<not> slot_active p ! j}"
    using inv by (simp add: pool_inv_def)
  then have notin: "?i \<notin> set (pool_free p)" using i by simp
  have "insert ?i (set (pool_free p)) =
      {j. j < pool_capacity p \<and> \<not> (slot_active p)[?i := False] ! j}"
    using set i inv by (auto simp: nth_list_update pool_inv_def)
  with inv room notin show "pool_inv (pool_release idx p)"
    unfolding pool_inv_def free by (simp add: eq pool_capacity_def)
qed

lemma pool_release_inv: "pool_inv p \<Longrightarrow> pool_inv (pool_release idx p)"
  using pool_release_active(1) pool_release_noop by metis

section \<open>Properties\<close>

text \<open>C30: The pool hands out each slot to one owner at a time. From a pool in a valid state,
  \<^verbatim>\<open>acquire\<close> fails with -1 and no change exactly when no slot is free; otherwise it returns a
  slot in range that was not active and makes just this one active. The state stays valid.\<close>

theorem acquire_exclusive:
  assumes "pool_inv p"
  shows "pool_inv (snd (pool_acquire p)) \<and>
    (pool_available p = 0 \<longrightarrow> pool_acquire p = (-1, p)) \<and>
    (pool_available p > 0 \<longrightarrow> (\<exists>i. fst (pool_acquire p) = int i \<and> i < pool_capacity p \<and>
       i \<notin> pool_active p \<and> pool_active (snd (pool_acquire p)) = insert i (pool_active p)))"
proof -
  have "\<exists>i. fst (pool_acquire p) = int i \<and> i < pool_capacity p \<and>
      i \<notin> pool_active p \<and> pool_active (snd (pool_acquire p)) = insert i (pool_active p)"
    if free: "0 < free_count p"
  proof -
    obtain i where "i < pool_capacity p" "fst (pool_acquire p) = int i"
      using pool_acquire_slot [OF assms free] by (metis fst_conv)
    with pool_acquire_active [OF assms free, of i] show ?thesis by blast
  qed
  then show ?thesis using pool_acquire_inv [OF assms] pool_acquire_fail by (auto simp: pool_available_def)
qed

theorem acquire_exclusive_witness:
  "\<exists>i. fst (pool_acquire (pool_init 2)) = int i \<and> i < 2"
proof -
  have "pool_inv (pool_init 2)" by (rule pool_init_inv) simp
  from acquire_exclusive [OF this] show ?thesis
    by (simp add: pool_available_def pool_init_def pool_reset_eq pool_capacity_def) blast
qed

text \<open>\<^verbatim>\<open>release\<close> is safe for every index: on an index that is out of range or not active,
  also a slot released before, nothing changes; on an active slot just this slot becomes free.
  Free and used slots always add up to the capacity.\<close>

lemma release_safe:
  assumes "pool_inv p"
  shows "pool_inv (pool_release idx p) \<and>
    (\<not> pool_is_active idx p \<longrightarrow> pool_release idx p = p) \<and>
    (pool_is_active idx p \<longrightarrow> pool_active (pool_release idx p) = pool_active p - {array_index idx} \<and>
       pool_available (pool_release idx p) = pool_available p + 1) \<and>
    pool_in_use p = card (pool_active p)"
  using assms pool_release_inv pool_release_noop pool_release_active(2,3) pool_in_use_active
  by (simp add: pool_available_def)

end
