(* ===== verification/Vocabulary.thy ===== *)
theory Vocabulary
  imports Ewss_Prelude "HOL-Library.Multiset"
begin

text \<open>
  The vocabulary types of \<^verbatim>\<open>src/include/ewss.hpp\<close>: \<^verbatim>\<open>ErrorCode\<close>,
  \<^verbatim>\<open>expected\<close>, \<^verbatim>\<open>FixedVector\<close>, \<^verbatim>\<open>optional\<close>,
  \<^verbatim>\<open>FixedString\<close>, \<^verbatim>\<open>FixedFunction\<close> and \<^verbatim>\<open>ScopeGuard\<close>. Aligned raw
  storage is an option: \<^const>\<open>None\<close> where no object has been constructed, so that reading such
  storage, undefined in C++, is visible in the result.
\<close>

section \<open>Error codes\<close>

datatype ErrorCode =
    kOk | kBufferFull | kBufferEmpty | kHandshakeFailed | kFrameParseError | kConnectionClosed
  | kInvalidState | kSocketError | kTimeout | kMaxConnectionsExceeded | kInternalError

section \<open>expected\<close>

record ('v, 'e) expected =
  ex_storage :: "'v option"
  ex_err :: 'e
  ex_has_value :: bool

text \<open>The argument \<open>e0\<close> is the value-initialised error \<^verbatim>\<open>E{}\<close>.\<close>

definition ex_success :: "'e \<Rightarrow> 'v \<Rightarrow> ('v, 'e) expected" where
  "ex_success e0 v = \<lparr>ex_storage = Some v, ex_err = e0, ex_has_value = True\<rparr>"

definition ex_error :: "'e \<Rightarrow> ('v, 'e) expected" where
  "ex_error e = \<lparr>ex_storage = None, ex_err = e, ex_has_value = False\<rparr>"

definition ex_value :: "('v, 'e) expected \<Rightarrow> 'v option" where
  "ex_value x = ex_storage x"

definition ex_value_or :: "('v, 'e) expected \<Rightarrow> 'v \<Rightarrow> 'v option" where
  "ex_value_or x d = (if ex_has_value x then ex_value x else Some d)"

definition ex_copy :: "('v, 'e) expected \<Rightarrow> ('v, 'e) expected" where
  "ex_copy o1 = \<lparr>ex_storage = (if ex_has_value o1 then ex_value o1 else None),
     ex_err = ex_err o1, ex_has_value = ex_has_value o1\<rparr>"

text \<open>Assignment to a distinct object: the old value is destroyed first.\<close>

definition ex_assign :: "('v, 'e) expected \<Rightarrow> ('v, 'e) expected \<Rightarrow> ('v, 'e) expected" where
  "ex_assign this o1 =
     (let t1 = (if ex_has_value this then this\<lparr>ex_storage := None\<rparr> else this);
          t2 = t1\<lparr>ex_has_value := ex_has_value o1, ex_err := ex_err o1\<rparr>
      in if ex_has_value t2 then t2\<lparr>ex_storage := ex_value o1\<rparr> else t2)"

definition ex_inv :: "('v, 'e) expected \<Rightarrow> bool" where
  "ex_inv x \<longleftrightarrow> (ex_has_value x \<longleftrightarrow> ex_storage x \<noteq> None)"

lemma ex_inv_ops:
  "ex_inv (ex_success e0 v)" "ex_inv (ex_error e)" "ex_inv x \<Longrightarrow> ex_inv (ex_copy x)"
  "ex_inv x \<Longrightarrow> ex_inv y \<Longrightarrow> ex_inv (ex_assign x y)"
  by (auto simp: ex_inv_def ex_success_def ex_error_def ex_copy_def ex_assign_def ex_value_def Let_def)

lemma ex_copy_id: "ex_inv x \<Longrightarrow> ex_copy x = x"
  by (cases x) (auto simp: ex_inv_def ex_copy_def ex_value_def)

lemma ex_assign_id: "ex_inv x \<Longrightarrow> ex_inv y \<Longrightarrow> ex_assign x y = y"
  by (cases x; cases y) (auto simp: ex_inv_def ex_assign_def ex_value_def Let_def)

text \<open>\<^verbatim>\<open>expected<void, E>\<close>\<close>

record 'e expected_void =
  ev_err :: 'e
  ev_has_value :: bool

definition ev_success :: "'e \<Rightarrow> 'e expected_void" where
  "ev_success e0 = \<lparr>ev_err = e0, ev_has_value = True\<rparr>"

definition ev_error :: "'e \<Rightarrow> 'e expected_void" where
  "ev_error e = \<lparr>ev_err = e, ev_has_value = False\<rparr>"

type_synonym result = "ErrorCode expected_void"

abbreviation ok :: result where
  "ok \<equiv> ev_success kOk"

lemma ev_simps [simp]:
  "ev_has_value (ev_success e)" "\<not> ev_has_value (ev_error e)" "ev_err (ev_error e) = e"
  "ev_success a \<noteq> ev_error b" "ev_error b \<noteq> ev_success a" "(ev_error b = ev_error c) = (b = c)"
  by (simp_all add: ev_success_def ev_error_def)

section \<open>FixedVector\<close>

record 'a FixedVector =
  fv_storage :: "'a option list"
  fv_size :: nat

definition fv_init :: "nat \<Rightarrow> 'a FixedVector" where
  "fv_init cap = \<lparr>fv_storage = replicate cap None, fv_size = 0\<rparr>"

definition fv_capacity :: "'a FixedVector \<Rightarrow> nat" where
  "fv_capacity v = length (fv_storage v)"

definition fv_full :: "'a FixedVector \<Rightarrow> bool" where
  "fv_full v \<longleftrightarrow> fv_size v \<ge> fv_capacity v"

definition fv_empty :: "'a FixedVector \<Rightarrow> bool" where
  "fv_empty v \<longleftrightarrow> fv_size v = 0"

text \<open>\<^verbatim>\<open>operator[]\<close> does not check its index: \<^const>\<open>None\<close> is raw storage or past the array.\<close>

definition fv_at :: "'a FixedVector \<Rightarrow> nat \<Rightarrow> 'a option" where
  "fv_at v i = (if i < fv_capacity v then fv_storage v ! i else None)"

definition fv_front :: "'a FixedVector \<Rightarrow> 'a option" where
  "fv_front v = fv_at v 0"

text \<open>\<^verbatim>\<open>size_ - 1U\<close> wraps to the last 32-bit index when the vector is empty.\<close>

definition fv_back :: "'a FixedVector \<Rightarrow> 'a option" where
  "fv_back v = fv_at v (unat ((word_of_nat (fv_size v) :: u32) - 1))"

definition fv_set :: "nat \<Rightarrow> 'a \<Rightarrow> 'a FixedVector \<Rightarrow> 'a FixedVector" where
  "fv_set i x v = v\<lparr>fv_storage := (fv_storage v)[i := Some x]\<rparr>"

definition fv_emplace_back :: "'a \<Rightarrow> 'a FixedVector \<Rightarrow> bool \<times> 'a FixedVector" where
  "fv_emplace_back x v =
     (if fv_size v \<ge> fv_capacity v then (False, v)
      else (True, v\<lparr>fv_storage := (fv_storage v)[fv_size v := Some x], fv_size := fv_size v + 1\<rparr>))"

definition fv_push_back :: "'a \<Rightarrow> 'a FixedVector \<Rightarrow> bool \<times> 'a FixedVector" where
  "fv_push_back x v = fv_emplace_back x v"

definition fv_pop_back :: "'a FixedVector \<Rightarrow> bool \<times> 'a FixedVector" where
  "fv_pop_back v =
     (if fv_size v = 0 then (False, v)
      else (True, v\<lparr>fv_size := fv_size v - 1, fv_storage := (fv_storage v)[fv_size v - 1 := None]\<rparr>))"

fun fv_clear_loop :: "nat \<Rightarrow> 'a FixedVector \<Rightarrow> 'a FixedVector" where
  "fv_clear_loop 0 v = v"
| "fv_clear_loop (Suc n) v =
     fv_clear_loop n (v\<lparr>fv_size := n, fv_storage := (fv_storage v)[n := None]\<rparr>)"

definition fv_clear :: "'a FixedVector \<Rightarrow> 'a FixedVector" where
  "fv_clear v = fv_clear_loop (fv_size v) v"

text \<open>
  The copy loop \<^verbatim>\<open>for (i = 0; i < o.size_; ++i) push_back(o[i])\<close>; \<^const>\<open>None\<close> if it reads raw
  storage.
\<close>

fun fv_copy_loop :: "nat list \<Rightarrow> 'a FixedVector \<Rightarrow> 'a FixedVector \<Rightarrow> 'a FixedVector option" where
  "fv_copy_loop [] src dst = Some dst"
| "fv_copy_loop (i # is) src dst =
     (case fv_at src i of None \<Rightarrow> None
      | Some x \<Rightarrow> fv_copy_loop is src (snd (fv_push_back x dst)))"

definition fv_copy_assign :: "'a FixedVector \<Rightarrow> 'a FixedVector \<Rightarrow> 'a FixedVector option" where
  "fv_copy_assign this o1 = fv_copy_loop [0..<fv_size o1] o1 (fv_clear this)"

definition fv_move_assign ::
    "'a FixedVector \<Rightarrow> 'a FixedVector \<Rightarrow> ('a FixedVector \<times> 'a FixedVector) option" where
  "fv_move_assign this o1 =
     (case fv_copy_loop [0..<fv_size o1] o1 (fv_clear this) of None \<Rightarrow> None
      | Some this' \<Rightarrow> Some (this', fv_clear o1))"

definition fv_inv :: "'a FixedVector \<Rightarrow> bool" where
  "fv_inv v \<longleftrightarrow> fv_size v \<le> fv_capacity v \<and> fv_capacity v < 2 ^ 32 \<and>
     (\<forall>i < fv_capacity v. fv_storage v ! i \<noteq> None \<longleftrightarrow> i < fv_size v)"

definition fv_list :: "'a FixedVector \<Rightarrow> 'a list" where
  "fv_list v = map the (take (fv_size v) (fv_storage v))"

lemma fv_list_length [simp]: "fv_inv v \<Longrightarrow> length (fv_list v) = fv_size v"
  by (simp add: fv_list_def fv_inv_def fv_capacity_def)

lemma fv_at_list: "fv_inv v \<Longrightarrow> fv_at v i = (if i < fv_size v then Some (fv_list v ! i) else None)"
  by (auto simp: fv_at_def fv_list_def fv_inv_def fv_capacity_def)

lemma fv_init_inv: "cap < 2 ^ 32 \<Longrightarrow> fv_inv (fv_init cap)"
  by (simp add: fv_inv_def fv_init_def fv_capacity_def)

lemma fv_init_list: "fv_list (fv_init cap) = []"
  by (simp add: fv_list_def fv_init_def)

lemma fv_emplace_back_ok: "fst (fv_emplace_back x v) \<longleftrightarrow> fv_size v < fv_capacity v"
  by (simp add: fv_emplace_back_def not_le)

lemma fv_emplace_back_inv: "fv_inv v \<Longrightarrow> fv_inv (snd (fv_emplace_back x v))"
  by (auto simp: fv_emplace_back_def fv_inv_def fv_capacity_def nth_list_update)

lemma fv_emplace_back_list:
  "fv_inv v \<Longrightarrow> fv_size v < fv_capacity v \<Longrightarrow>
   fv_list (snd (fv_emplace_back x v)) = fv_list v @ [x]"
  by (simp add: fv_emplace_back_def fv_list_def fv_capacity_def take_Suc_conv_app_nth)

lemma fv_emplace_back_capacity [simp]:
  "fv_capacity (snd (fv_emplace_back x v)) = fv_capacity v"
  by (simp add: fv_emplace_back_def fv_capacity_def)

lemma fv_pop_back_inv: "fv_inv v \<Longrightarrow> fv_inv (snd (fv_pop_back v))"
  by (auto simp: fv_pop_back_def fv_inv_def fv_capacity_def nth_list_update split: if_splits)

lemma fv_pop_back_list: "fv_inv v \<Longrightarrow> fv_list (snd (fv_pop_back v)) = butlast (fv_list v)"
  by (simp add: fv_pop_back_def fv_list_def map_butlast [symmetric] butlast_take fv_inv_def
      fv_capacity_def)

lemma fv_pop_back_capacity [simp]: "fv_capacity (snd (fv_pop_back v)) = fv_capacity v"
  by (simp add: fv_pop_back_def fv_capacity_def)

lemma fv_set_inv: "fv_inv v \<Longrightarrow> i < fv_size v \<Longrightarrow> fv_inv (fv_set i x v)"
  by (auto simp: fv_set_def fv_inv_def fv_capacity_def nth_list_update)

lemma fv_set_list: "fv_inv v \<Longrightarrow> i < fv_size v \<Longrightarrow> fv_list (fv_set i x v) = (fv_list v)[i := x]"
  by (simp add: fv_set_def fv_list_def take_update_swap map_update)

lemma fv_set_capacity [simp]: "fv_capacity (fv_set i x v) = fv_capacity v" "fv_size (fv_set i x v) = fv_size v"
  by (simp_all add: fv_set_def fv_capacity_def)

lemma fv_clear_loop_inv:
  "fv_inv v \<Longrightarrow> fv_size v = n \<Longrightarrow>
   fv_inv (fv_clear_loop n v) \<and> fv_size (fv_clear_loop n v) = 0 \<and>
   fv_capacity (fv_clear_loop n v) = fv_capacity v"
proof (induction n arbitrary: v)
  case (Suc n)
  let ?v = "v\<lparr>fv_size := n, fv_storage := (fv_storage v)[n := None]\<rparr>"
  have "fv_inv ?v"
    using Suc.prems by (auto simp: fv_inv_def fv_capacity_def nth_list_update)
  from Suc.IH [OF this] show ?case by (simp add: fv_capacity_def)
qed simp

lemma fv_clear_inv:
  assumes "fv_inv v"
  shows "fv_inv (fv_clear v)" "fv_size (fv_clear v) = 0" "fv_capacity (fv_clear v) = fv_capacity v"
    "fv_list (fv_clear v) = []"
  using fv_clear_loop_inv [OF assms refl] by (simp_all add: fv_clear_def fv_list_def)

text \<open>The interface the reactor relies on: a vector that never grows past its capacity.\<close>

locale bounded_vector =
  fixes invar :: "'v \<Rightarrow> bool"
    and elems :: "'v \<Rightarrow> 'a list"
    and capacity :: "'v \<Rightarrow> nat"
    and push_back :: "'a \<Rightarrow> 'v \<Rightarrow> bool \<times> 'v"
    and pop_back :: "'v \<Rightarrow> bool \<times> 'v"
    and set_at :: "nat \<Rightarrow> 'a \<Rightarrow> 'v \<Rightarrow> 'v"
  assumes bounded: "invar v \<Longrightarrow> length (elems v) \<le> capacity v"
    and push_keeps: "invar v \<Longrightarrow> invar (snd (push_back x v)) \<and>
      capacity (snd (push_back x v)) = capacity v"
    and push_room: "invar v \<Longrightarrow> length (elems v) < capacity v \<Longrightarrow>
      fst (push_back x v) \<and> elems (snd (push_back x v)) = elems v @ [x]"
    and push_full: "invar v \<Longrightarrow> length (elems v) = capacity v \<Longrightarrow> push_back x v = (False, v)"
    and pop_keeps: "invar v \<Longrightarrow> invar (snd (pop_back v)) \<and> capacity (snd (pop_back v)) = capacity v"
    and pop_elems: "invar v \<Longrightarrow> elems (snd (pop_back v)) = butlast (elems v)"
    and set_keeps: "invar v \<Longrightarrow> i < length (elems v) \<Longrightarrow>
      invar (set_at i x v) \<and> capacity (set_at i x v) = capacity v"
    and set_elems: "invar v \<Longrightarrow> i < length (elems v) \<Longrightarrow> elems (set_at i x v) = (elems v)[i := x]"
begin

text \<open>Overwriting an element with the last one and dropping the last removes that element.\<close>

definition swap_pop :: "nat \<Rightarrow> 'v \<Rightarrow> 'v" where
  "swap_pop i v =
     snd (pop_back (if i < length (elems v) - 1 then set_at i (last (elems v)) v else v))"

lemma swap_pop_keeps:
  "invar v \<Longrightarrow> i < length (elems v) \<Longrightarrow> invar (swap_pop i v) \<and> capacity (swap_pop i v) = capacity v"
  using set_keeps pop_keeps by (auto simp: swap_pop_def)

lemma swap_pop_elems:
  assumes "invar v" and "i < length (elems v)"
  shows "length (elems (swap_pop i v)) = length (elems v) - 1"
    and "take i (elems (swap_pop i v)) = take i (elems v)"
  using assms set_keeps [OF assms] set_elems [OF assms]
  by (auto simp: swap_pop_def pop_elems take_butlast)

lemma swap_pop_mset:
  assumes "invar v" and "i < length (elems v)"
  shows "mset (elems (swap_pop i v)) = mset (elems v) - {#elems v ! i#}"
proof -
  have ne: "elems v \<noteq> []" using assms(2) by auto
  show ?thesis
  proof (cases "i < length (elems v) - 1")
    case False
    then have i: "i = length (elems v) - 1" using assms(2) by simp
    then have "elems v ! i = last (elems v)" using ne by (simp add: last_conv_nth)
    moreover have "mset (elems v) = mset (butlast (elems v)) + {#last (elems v)#}"
      using ne by (metis append_butlast_last_id mset.simps mset_append add_mset_add_single)
    ultimately show ?thesis using False assms(1) by (simp add: swap_pop_def pop_elems)
  next
    case True
    define b where "b = butlast (elems v)"
    have v: "elems v = b @ [last (elems v)]" using ne by (simp add: b_def)
    have ib: "i < length b" using True by (simp add: b_def)
    have "butlast ((elems v)[i := last (elems v)]) = b[i := last (elems v)]"
      using ib by (subst v) (simp add: list_update_append)
    then have "mset (elems (swap_pop i v)) = mset (b[i := last (elems v)])"
      using True assms set_keeps [OF assms] set_elems [OF assms] by (simp add: swap_pop_def pop_elems)
    also have "\<dots> = add_mset (last (elems v)) (mset b - {#b ! i#})"
      using ib by (simp add: mset_update)
    also have "\<dots> = mset (elems v) - {#elems v ! i#}"
      using ib by (subst (2 3) v) (simp add: nth_append)
    finally show ?thesis .
  qed
qed

end

interpretation fvv: bounded_vector fv_inv fv_list fv_capacity fv_push_back fv_pop_back fv_set
proof unfold_locales
  fix v :: "'a FixedVector" and x :: 'a and i :: nat
  assume inv: "fv_inv v"
  show "length (fv_list v) \<le> fv_capacity v" using inv by (simp) (simp add: fv_inv_def)
  show "fv_inv (snd (fv_push_back x v)) \<and> fv_capacity (snd (fv_push_back x v)) = fv_capacity v"
    using inv by (simp add: fv_push_back_def fv_emplace_back_inv)
  show "fst (fv_push_back x v) \<and> fv_list (snd (fv_push_back x v)) = fv_list v @ [x]"
    if "length (fv_list v) < fv_capacity v"
    using that inv by (simp add: fv_push_back_def fv_emplace_back_list fv_emplace_back_ok)
  show "fv_push_back x v = (False, v)" if "length (fv_list v) = fv_capacity v"
    using that inv by (simp add: fv_push_back_def fv_emplace_back_def)
  show "fv_inv (snd (fv_pop_back v)) \<and> fv_capacity (snd (fv_pop_back v)) = fv_capacity v"
    using inv by (simp add: fv_pop_back_inv)
  show "fv_list (snd (fv_pop_back v)) = butlast (fv_list v)" using inv by (rule fv_pop_back_list)
  show "fv_inv (fv_set i x v) \<and> fv_capacity (fv_set i x v) = fv_capacity v"
    if "i < length (fv_list v)" using that inv by (simp add: fv_set_inv)
  show "fv_list (fv_set i x v) = (fv_list v)[i := x]" if "i < length (fv_list v)"
    using that inv by (simp add: fv_set_list)
qed

lemma fv_copy_loop_list:
  assumes "fv_inv src"
  shows "fv_inv dst \<Longrightarrow> k \<le> fv_size src \<Longrightarrow> fv_size dst + (fv_size src - k) \<le> fv_capacity dst \<Longrightarrow>
    \<exists>dst'. fv_copy_loop [k..<fv_size src] src dst = Some dst' \<and> fv_inv dst' \<and>
      fv_capacity dst' = fv_capacity dst \<and> fv_list dst' = fv_list dst @ drop k (fv_list src)"
proof (induction "fv_size src - k" arbitrary: k dst)
  case 0
  then show ?case using assms by simp
next
  case (Suc n)
  let ?x = "fv_list src ! k" and ?dst = "snd (fv_push_back (fv_list src ! k) dst)"
  have k: "k < fv_size src" using Suc.hyps(2) by simp
  have room: "length (fv_list dst) < fv_capacity dst" using Suc.prems k by simp
  have inv: "fv_inv ?dst" and cap: "fv_capacity ?dst = fv_capacity dst"
    using fvv.push_keeps [OF Suc.prems(1)] by auto
  have app: "fv_list ?dst = fv_list dst @ [?x]" using fvv.push_room [OF Suc.prems(1) room] by auto
  then have size: "fv_size ?dst = fv_size dst + 1"
    using fv_list_length [OF inv] fv_list_length [OF Suc.prems(1)] by simp
  have "\<exists>dst'. fv_copy_loop [Suc k..<fv_size src] src ?dst = Some dst' \<and> fv_inv dst' \<and>
      fv_capacity dst' = fv_capacity ?dst \<and> fv_list dst' = fv_list ?dst @ drop (Suc k) (fv_list src)"
    using Suc.hyps(2) Suc.prems inv cap size k by (intro Suc.hyps(1)) auto
  moreover have "fv_at src k = Some ?x" using k assms by (simp add: fv_at_list)
  moreover have "drop k (fv_list src) = ?x # drop (Suc k) (fv_list src)"
    using k assms by (simp add: Cons_nth_drop_Suc)
  ultimately show ?case using k app cap by (auto simp: upt_conv_Cons)
qed

lemma fv_copy_assign_list:
  assumes "fv_inv this" and "fv_inv src" and "fv_capacity this = fv_capacity src"
  obtains v where "fv_copy_assign this src = Some v" "fv_inv v" "fv_list v = fv_list src"
proof -
  have "fv_size src \<le> fv_capacity (fv_clear this)"
    using assms fv_clear_inv(3) [OF assms(1)] by (simp add: fv_inv_def)
  with fv_copy_loop_list [OF assms(2) fv_clear_inv(1) [OF assms(1)], of 0]
    fv_clear_inv [OF assms(1)] that show ?thesis
    by (auto simp: fv_copy_assign_def)
qed

section \<open>optional\<close>

record 'a optional =
  op_storage :: "'a option"
  op_has_value :: bool

definition op_none :: "'a optional" where
  "op_none = \<lparr>op_storage = None, op_has_value = False\<rparr>"

definition op_some :: "'a \<Rightarrow> 'a optional" where
  "op_some v = \<lparr>op_storage = Some v, op_has_value = True\<rparr>"

definition op_value :: "'a optional \<Rightarrow> 'a option" where
  "op_value x = op_storage x"

definition op_value_or :: "'a optional \<Rightarrow> 'a \<Rightarrow> 'a option" where
  "op_value_or x d = (if op_has_value x then op_value x else Some d)"

definition op_reset :: "'a optional \<Rightarrow> 'a optional" where
  "op_reset x = (if op_has_value x then x\<lparr>op_storage := None, op_has_value := False\<rparr> else x)"

definition op_assign :: "'a optional \<Rightarrow> 'a optional \<Rightarrow> 'a optional" where
  "op_assign this o1 =
     (let t = (op_reset this)\<lparr>op_has_value := op_has_value o1\<rparr>
      in if op_has_value t then t\<lparr>op_storage := op_value o1\<rparr> else t)"

definition op_inv :: "'a optional \<Rightarrow> bool" where
  "op_inv x \<longleftrightarrow> (op_has_value x \<longleftrightarrow> op_storage x \<noteq> None)"

lemma op_inv_ops:
  "op_inv op_none" "op_inv (op_some v)" "op_inv x \<Longrightarrow> op_inv (op_reset x)"
  by (auto simp: op_inv_def op_none_def op_some_def op_reset_def)

lemma op_assign_id: "op_inv x \<Longrightarrow> op_inv y \<Longrightarrow> op_assign x y = y"
  by (cases x; cases y) (auto simp: op_inv_def op_assign_def op_reset_def op_value_def Let_def)

section \<open>FixedString\<close>

text \<open>
  A buffer of \<open>Capacity + 1\<close> bytes. Construction from a literal copies its bytes and the
  terminator; the argument \<open>raw\<close> is what the uninitialised buffer held.
\<close>

record FixedString =
  fs_buf :: bytes
  fs_size :: nat

definition fs_init :: "nat \<Rightarrow> FixedString" where
  "fs_init cap = \<lparr>fs_buf = replicate (cap + 1) 0, fs_size = 0\<rparr>"

definition fs_literal :: "bytes \<Rightarrow> bytes \<Rightarrow> FixedString" where
  "fs_literal raw str =
     \<lparr>fs_buf = str @ [0] @ drop (length str + 1) raw, fs_size = length str\<rparr>"

definition fs_clear :: "FixedString \<Rightarrow> FixedString" where
  "fs_clear s = s\<lparr>fs_size := 0, fs_buf := (fs_buf s)[0 := 0]\<rparr>"

definition fs_inv :: "nat \<Rightarrow> FixedString \<Rightarrow> bool" where
  "fs_inv cap s \<longleftrightarrow> length (fs_buf s) = cap + 1 \<and> fs_size s \<le> cap \<and> fs_buf s ! fs_size s = 0"

lemma fs_inv_ops:
  "fs_inv cap (fs_init cap)"
  "length raw = cap + 1 \<Longrightarrow> length str \<le> cap \<Longrightarrow> fs_inv cap (fs_literal raw str)"
  "fs_inv cap s \<Longrightarrow> fs_inv cap (fs_clear s)"
  by (auto simp: fs_inv_def fs_init_def fs_literal_def fs_clear_def nth_append)

section \<open>FixedFunction and ScopeGuard\<close>

text \<open>
  A callable is an abstract value \<open>'f\<close>; \<open>ff_invoker\<close> and \<open>ff_destroyer\<close> say whether the two
  function pointers are set. Operations return the callables they destroy.
\<close>

record 'f FixedFunction =
  ff_storage :: "'f option"
  ff_invoker :: bool
  ff_destroyer :: bool

definition ff_null :: "'f FixedFunction" where
  "ff_null = \<lparr>ff_storage = None, ff_invoker = False, ff_destroyer = False\<rparr>"

definition ff_make :: "'f \<Rightarrow> 'f FixedFunction" where
  "ff_make f = \<lparr>ff_storage = Some f, ff_invoker = True, ff_destroyer = True\<rparr>"

definition ff_destroy :: "'f FixedFunction \<Rightarrow> 'f list" where
  "ff_destroy x = (if ff_destroyer x then (case ff_storage x of None \<Rightarrow> [] | Some f \<Rightarrow> [f]) else [])"

text \<open>The moved-from object keeps its bytes, but no pointer to run or destroy them.\<close>

definition ff_move :: "'f FixedFunction \<Rightarrow> 'f FixedFunction \<times> 'f FixedFunction" where
  "ff_move o1 =
     (let this = \<lparr>ff_storage = None, ff_invoker = ff_invoker o1, ff_destroyer = ff_destroyer o1\<rparr>
      in if ff_invoker o1
         then (this\<lparr>ff_storage := ff_storage o1\<rparr>, o1\<lparr>ff_invoker := False, ff_destroyer := False\<rparr>)
         else (this, o1))"

definition ff_move_assign ::
    "'f FixedFunction \<Rightarrow> 'f FixedFunction \<Rightarrow> 'f list \<times> 'f FixedFunction \<times> 'f FixedFunction" where
  "ff_move_assign this o1 =
     (let this1 = this\<lparr>ff_invoker := ff_invoker o1, ff_destroyer := ff_destroyer o1\<rparr>
      in (ff_destroy this,
          if ff_invoker o1
          then (this1\<lparr>ff_storage := ff_storage o1\<rparr>, o1\<lparr>ff_invoker := False, ff_destroyer := False\<rparr>)
          else (this1, o1)))"

definition ff_assign_null :: "'f FixedFunction \<Rightarrow> 'f list \<times> 'f FixedFunction" where
  "ff_assign_null this = (ff_destroy this, this\<lparr>ff_invoker := False, ff_destroyer := False\<rparr>)"

text \<open>The callable that \<^verbatim>\<open>operator()\<close> runs; \<^const>\<open>None\<close> is a call through a null pointer.\<close>

definition ff_call :: "'f FixedFunction \<Rightarrow> 'f option" where
  "ff_call x = (if ff_invoker x then ff_storage x else None)"

definition ff_inv :: "'f FixedFunction \<Rightarrow> bool" where
  "ff_inv x \<longleftrightarrow> ff_invoker x = ff_destroyer x \<and> (ff_invoker x \<longrightarrow> ff_storage x \<noteq> None)"

definition ff_owned :: "'f FixedFunction \<Rightarrow> 'f multiset" where
  "ff_owned x = mset (ff_destroy x)"

lemma ff_inv_ops:
  "ff_inv ff_null" "ff_inv (ff_make f)" "ff_inv x \<Longrightarrow> ff_inv (fst (ff_move x))"
  "ff_inv x \<Longrightarrow> ff_inv (snd (ff_move x))" "ff_inv x \<Longrightarrow> ff_inv (snd (ff_assign_null x))"
  by (auto simp: ff_inv_def ff_null_def ff_make_def ff_move_def ff_assign_null_def Let_def)

lemma ff_move_owned:
  "ff_inv x \<Longrightarrow> ff_move x = (y, x') \<Longrightarrow>
   ff_owned y + ff_owned x' = ff_owned x \<and> ff_call y = ff_call x \<and> ff_call x' = None"
  by (auto simp: ff_inv_def ff_move_def ff_owned_def ff_destroy_def ff_call_def Let_def
      split: if_splits)

record 'f ScopeGuard =
  sg_cleanup :: "'f FixedFunction"
  sg_active :: bool

definition sg_make :: "'f FixedFunction \<Rightarrow> 'f ScopeGuard" where
  "sg_make c = \<lparr>sg_cleanup = fst (ff_move c), sg_active = True\<rparr>"

text \<open>What the destructor of a guard calls.\<close>

definition sg_destroy :: "'f ScopeGuard \<Rightarrow> 'f list" where
  "sg_destroy g =
     (if sg_active g \<and> ff_invoker (sg_cleanup g)
      then (case ff_call (sg_cleanup g) of None \<Rightarrow> [] | Some f \<Rightarrow> [f]) else [])"

definition sg_release :: "'f ScopeGuard \<Rightarrow> 'f ScopeGuard" where
  "sg_release g = g\<lparr>sg_active := False\<rparr>"

definition sg_move :: "'f ScopeGuard \<Rightarrow> 'f ScopeGuard \<times> 'f ScopeGuard" where
  "sg_move o1 =
     (let (c, c') = ff_move (sg_cleanup o1)
      in (\<lparr>sg_cleanup = c, sg_active = sg_active o1\<rparr>,
          \<lparr>sg_cleanup = c', sg_active = False\<rparr>))"

section \<open>Properties\<close>



text \<open>A scope guard runs its cleanup exactly once or, after \<^verbatim>\<open>release\<close>, never: after a move
  only the new guard runs it, and a released guard runs nothing.\<close>

lemma guard_runs_once:
  assumes "ff_inv c" and "ff_call c = Some f" and "sg_move (sg_make c) = (g, old)"
  shows "sg_destroy g = [f] \<and> sg_destroy old = [] \<and> sg_destroy (sg_release g) = [] \<and>
    sg_destroy (sg_make c) = [f]"
  using assms
  by (auto simp: sg_move_def sg_make_def sg_destroy_def sg_release_def ff_move_def ff_call_def ff_inv_def
      Let_def split: if_splits)

text \<open>Copy assignment of a \<^verbatim>\<open>FixedVector\<close> reads only constructed elements of the source and
  leaves the target with exactly the source's elements, whatever the target held.\<close>

lemma vector_copy:
  assumes "fv_inv this" and "fv_inv src" and "fv_capacity this = fv_capacity src"
  shows "\<exists>v. fv_copy_assign this src = Some v \<and> fv_inv v \<and> fv_list v = fv_list src"
  using fv_copy_assign_list [OF assms] by metis

end
