(* ===== verification/Vocabulary_Types.thy ===== *)
theory Vocabulary_Types
  imports Vocabulary
begin

text \<open>
  The remaining operations of the vocabulary types: moves, copies and destructors, the reference type
  \<^verbatim>\<open>function_ref\<close> and the plain structure \<^verbatim>\<open>TlsConfig\<close>; and the type invariant: whatever operations an
  object has gone through, its flag or size says exactly which of its storage holds an object.
  The parameter \<open>mv\<close> is the state in which the move constructor of the element type leaves its source.
\<close>

section \<open>Moving and destroying\<close>

definition ex_move :: "('v \<Rightarrow> 'v) \<Rightarrow> ('v, 'e) expected \<Rightarrow> ('v, 'e) expected \<times> ('v, 'e) expected" where
  "ex_move mv o1 =
     (\<lparr>ex_storage = (if ex_has_value o1 then ex_value o1 else None), ex_err = ex_err o1, ex_has_value = ex_has_value o1\<rparr>,
      if ex_has_value o1 then o1\<lparr>ex_storage := map_option mv (ex_storage o1)\<rparr> else o1)"

text \<open>Assignment to a distinct object.\<close>

definition ex_move_assign ::
    "('v \<Rightarrow> 'v) \<Rightarrow> ('v, 'e) expected \<Rightarrow> ('v, 'e) expected \<Rightarrow> ('v, 'e) expected \<times> ('v, 'e) expected" where
  "ex_move_assign mv this o1 =
     (let t1 = (if ex_has_value this then this\<lparr>ex_storage := None\<rparr> else this);
          t2 = t1\<lparr>ex_has_value := ex_has_value o1, ex_err := ex_err o1\<rparr>
      in if ex_has_value t2
         then (t2\<lparr>ex_storage := ex_value o1\<rparr>, o1\<lparr>ex_storage := map_option mv (ex_storage o1)\<rparr>) else (t2, o1))"

text \<open>What a destructor destroys: no object, or the contents of the storage.\<close>

definition ex_destroy :: "('v, 'e) expected \<Rightarrow> 'v option list" where
  "ex_destroy x = (if ex_has_value x then [ex_storage x] else [])"

definition op_copy :: "'a optional \<Rightarrow> 'a optional" where
  "op_copy o1 = \<lparr>op_storage = (if op_has_value o1 then op_value o1 else None), op_has_value = op_has_value o1\<rparr>"

definition op_move :: "('a \<Rightarrow> 'a) \<Rightarrow> 'a optional \<Rightarrow> 'a optional \<times> 'a optional" where
  "op_move mv o1 =
     (\<lparr>op_storage = (if op_has_value o1 then op_value o1 else None), op_has_value = op_has_value o1\<rparr>,
      if op_has_value o1 then o1\<lparr>op_storage := map_option mv (op_storage o1)\<rparr> else o1)"

definition op_move_assign :: "('a \<Rightarrow> 'a) \<Rightarrow> 'a optional \<Rightarrow> 'a optional \<Rightarrow> 'a optional \<times> 'a optional" where
  "op_move_assign mv this o1 =
     (let t = (op_reset this)\<lparr>op_has_value := op_has_value o1\<rparr>
      in if op_has_value t
         then (t\<lparr>op_storage := op_value o1\<rparr>, o1\<lparr>op_storage := map_option mv (op_storage o1)\<rparr>) else (t, o1))"

definition op_destroy :: "'a optional \<Rightarrow> 'a optional" where
  "op_destroy x = op_reset x"

text \<open>The copy constructor starts from raw storage; the moved-from vector is cleared.\<close>

definition fv_copy :: "nat \<Rightarrow> 'a FixedVector \<Rightarrow> 'a FixedVector option" where
  "fv_copy cap o1 = fv_copy_loop [0..<fv_size o1] o1 (fv_init cap)"

definition fv_move :: "nat \<Rightarrow> 'a FixedVector \<Rightarrow> ('a FixedVector \<times> 'a FixedVector) option" where
  "fv_move cap o1 =
     (case fv_copy_loop [0..<fv_size o1] o1 (fv_init cap) of None \<Rightarrow> None | Some v \<Rightarrow> Some (v, fv_clear o1))"

definition fv_destroy :: "'a FixedVector \<Rightarrow> 'a FixedVector" where
  "fv_destroy v = fv_clear v"

text \<open>The range \<^verbatim>\<open>begin()\<close> to \<^verbatim>\<open>end()\<close>, dereferenced; \<^const>\<open>None\<close> where there is no object.\<close>

definition fv_range :: "'a FixedVector \<Rightarrow> 'a option list" where
  "fv_range v = map (fv_at v) [0..<fv_size v]"

section \<open>function_ref\<close>

text \<open>
  A reference to a callable object, by its address, or to a function. Calling it runs what is at the
  address at the time of the call; \<open>store\<close> gives the callables that live then, and \<^const>\<open>None\<close> is a call
  of an object that no longer does.
\<close>

datatype 'f function_ref = RefObject nat | RefFunction 'f

definition fr_object :: "nat \<Rightarrow> 'f function_ref" where
  "fr_object address = RefObject address"

definition fr_function :: "'f \<Rightarrow> 'f function_ref" where
  "fr_function fn = RefFunction fn"

definition fr_call :: "(nat \<Rightarrow> 'f option) \<Rightarrow> 'f function_ref \<Rightarrow> 'f option" where
  "fr_call store r = (case r of RefObject address \<Rightarrow> store address | RefFunction fn \<Rightarrow> Some fn)"

lemma function_ref_follows:
  "fr_call (store(a \<mapsto> f)) (fr_object a) = Some f" "fr_call (store(a := None)) (fr_object a) = None"
  "a \<noteq> b \<Longrightarrow> fr_call (store(a := x)) (fr_object b) = fr_call store (fr_object b)"
  "fr_call store (fr_function fn) = Some fn"
  by (simp_all add: fr_call_def fr_object_def fr_function_def)

section \<open>TLS configuration\<close>

record TlsConfig =
  cert_path :: bytes
  key_path :: bytes
  ca_path :: bytes
  require_client_cert :: bool
  min_tls_version :: int

definition tls_default :: TlsConfig where
  "tls_default = \<lparr>cert_path = [], key_path = [], ca_path = [], require_client_cert = False, min_tls_version = 0\<rparr>"

section \<open>The type invariant\<close>

text \<open>Objects built by any sequence of operations of their class.\<close>

inductive ex_built :: "('v \<Rightarrow> 'v) \<Rightarrow> ('v, 'e) expected \<Rightarrow> bool" for mv where
  eb_success: "ex_built mv (ex_success e0 v)"
| eb_error: "ex_built mv (ex_error e)"
| eb_copy: "ex_built mv x \<Longrightarrow> ex_built mv (ex_copy x)"
| eb_assign: "ex_built mv x \<Longrightarrow> ex_built mv y \<Longrightarrow> ex_built mv (ex_assign x y)"
| eb_move: "ex_built mv x \<Longrightarrow> ex_move mv x = (y, x') \<Longrightarrow> z \<in> {y, x'} \<Longrightarrow> ex_built mv z"
| eb_move_assign: "ex_built mv x \<Longrightarrow> ex_built mv y \<Longrightarrow> ex_move_assign mv x y = (x', y') \<Longrightarrow> z \<in> {x', y'} \<Longrightarrow> ex_built mv z"

inductive op_built :: "('a \<Rightarrow> 'a) \<Rightarrow> 'a optional \<Rightarrow> bool" for mv where
  ob_none: "op_built mv op_none"
| ob_some: "op_built mv (op_some v)"
| ob_reset: "op_built mv x \<Longrightarrow> op_built mv (op_reset x)"
| ob_copy: "op_built mv x \<Longrightarrow> op_built mv (op_copy x)"
| ob_assign: "op_built mv x \<Longrightarrow> op_built mv y \<Longrightarrow> op_built mv (op_assign x y)"
| ob_move: "op_built mv x \<Longrightarrow> op_move mv x = (y, x') \<Longrightarrow> z \<in> {y, x'} \<Longrightarrow> op_built mv z"
| ob_move_assign: "op_built mv x \<Longrightarrow> op_built mv y \<Longrightarrow> op_move_assign mv x y = (x', y') \<Longrightarrow> z \<in> {x', y'} \<Longrightarrow> op_built mv z"

inductive fv_built :: "nat \<Rightarrow> 'a FixedVector \<Rightarrow> bool" for cap where
  vb_init: "fv_built cap (fv_init cap)"
| vb_push: "fv_built cap v \<Longrightarrow> fv_built cap (snd (fv_push_back x v))"
| vb_pop: "fv_built cap v \<Longrightarrow> fv_built cap (snd (fv_pop_back v))"
| vb_set: "fv_built cap v \<Longrightarrow> i < fv_size v \<Longrightarrow> fv_built cap (fv_set i x v)"
| vb_clear: "fv_built cap v \<Longrightarrow> fv_built cap (fv_clear v)"
| vb_copy: "fv_built cap v \<Longrightarrow> fv_copy cap v = Some v' \<Longrightarrow> fv_built cap v'"
| vb_assign: "fv_built cap v \<Longrightarrow> fv_built cap w \<Longrightarrow> fv_copy_assign v w = Some v' \<Longrightarrow> fv_built cap v'"
| vb_move: "fv_built cap v \<Longrightarrow> fv_move cap v = Some (w, v') \<Longrightarrow> z \<in> {w, v'} \<Longrightarrow> fv_built cap z"
| vb_move_assign: "fv_built cap v \<Longrightarrow> fv_built cap w \<Longrightarrow> fv_move_assign v w = Some (v', w') \<Longrightarrow> z \<in> {v', w'} \<Longrightarrow> fv_built cap z"

lemma ex_built_inv: "ex_built mv x \<Longrightarrow> ex_inv x"
proof (induction rule: ex_built.induct)
  case (eb_move x y x' z)
  then show ?case by (auto simp: ex_inv_def ex_move_def ex_value_def split: if_splits)
next
  case (eb_move_assign x y x' y' z)
  then show ?case by (auto simp: ex_inv_def ex_move_assign_def ex_value_def Let_def split: if_splits)
qed (auto intro: ex_inv_ops)

lemma op_built_inv: "op_built mv x \<Longrightarrow> op_inv x"
proof (induction rule: op_built.induct)
  case (ob_copy x)
  then show ?case by (auto simp: op_inv_def op_copy_def op_value_def)
next
  case (ob_assign x y)
  then show ?case by (simp add: op_assign_id)
next
  case (ob_move x y x' z)
  then show ?case by (auto simp: op_inv_def op_move_def op_value_def split: if_splits)
next
  case (ob_move_assign x y x' y' z)
  then show ?case by (auto simp: op_inv_def op_move_assign_def op_reset_def op_value_def Let_def split: if_splits)
qed (auto intro: op_inv_ops)

lemma fv_copy_from:
  assumes "fv_inv v" and "fv_inv w" and "fv_size v = 0" and "fv_size w \<le> fv_capacity v"
  shows "\<exists>v'. fv_copy_loop [0..<fv_size w] w v = Some v' \<and> fv_inv v' \<and> fv_capacity v' = fv_capacity v \<and> fv_list v' = fv_list w"
proof -
  have "fv_list v = []" using assms(3) by (simp add: fv_list_def)
  with fv_copy_loop_list [OF assms(2,1), of 0] assms(3,4) show ?thesis by simp
qed

lemma fv_init_facts: "cap < 2 ^ 32 \<Longrightarrow> fv_inv (fv_init cap)" "fv_size (fv_init cap) = 0" "fv_capacity (fv_init cap) = cap"
  by (simp_all add: fv_init_inv) (simp_all add: fv_init_def fv_capacity_def)

lemma fv_size_le: "fv_inv v \<Longrightarrow> fv_size v \<le> fv_capacity v"
  by (simp add: fv_inv_def)

text \<open>Both ways of filling a vector from another, from raw storage and after clearing.\<close>

lemma fv_fill:
  assumes "cap < 2 ^ 32" and "fv_inv w \<and> fv_capacity w = cap"
  shows "\<exists>v'. fv_copy_loop [0..<fv_size w] w (fv_init cap) = Some v' \<and> fv_inv v' \<and> fv_capacity v' = cap \<and> fv_list v' = fv_list w"
    and "fv_inv v \<and> fv_capacity v = cap \<Longrightarrow>
      \<exists>v'. fv_copy_loop [0..<fv_size w] w (fv_clear v) = Some v' \<and> fv_inv v' \<and> fv_capacity v' = cap \<and> fv_list v' = fv_list w"
  using fv_copy_from [of "fv_init cap" w] fv_copy_from [of "fv_clear v" w] fv_clear_inv [of v]
    fv_size_le [of w] assms by (simp_all add: fv_init_facts)

lemma fv_built_inv:
  assumes "cap < 2 ^ 32" and "fv_built cap v"
  shows "fv_inv v \<and> fv_capacity v = cap"
  using assms(2)
proof (induction rule: fv_built.induct)
  case vb_init
  then show ?case using assms(1) by (simp add: fv_init_facts)
next
  case (vb_push v x)
  then show ?case using fvv.push_keeps [of v x] by simp
next
  case (vb_copy v v')
  then show ?case using fv_fill(1) [OF assms(1) vb_copy.IH] by (auto simp: fv_copy_def)
next
  case (vb_assign v w v')
  then show ?case using fv_fill(2) [OF assms(1) vb_assign.IH(2,1)] by (auto simp: fv_copy_assign_def)
next
  case (vb_move v w v' z)
  then show ?case using fv_fill(1) [OF assms(1) vb_move.IH] fv_clear_inv [of v] by (auto simp: fv_move_def)
next
  case (vb_move_assign v w v' w' z)
  then show ?case using fv_fill(2) [OF assms(1) vb_move_assign.IH(2,1)] fv_clear_inv [of w]
    by (auto simp: fv_move_assign_def)
qed (simp_all add: fv_pop_back_inv fv_set_inv fv_clear_inv)



end
