(* ===== verification/Ring_Buffer.thy ===== *)
theory Ring_Buffer
  imports Ewss_Prelude
begin

text \<open>
  \<^verbatim>\<open>RingBuffer<T, Size>\<close> of \<^verbatim>\<open>src/include/ewss.hpp\<close>: a circular buffer
  with an iovec interface. The array is a list whose length is the template parameter
  \<^verbatim>\<open>Size\<close>; indices and counts are natural numbers, which the invariant keeps below
  \<^verbatim>\<open>Size\<close>, so that no \<^verbatim>\<open>size_t\<close> operation of the source wraps.
\<close>

section \<open>State and operations\<close>

record 'a RingBuffer =
  rb_buffer :: "'a list"
  rb_read_idx :: nat
  rb_write_idx :: nat
  rb_count :: nat

text \<open>A default-constructed buffer: \<^verbatim>\<open>buffer_{}\<close> holds \<open>n\<close> copies of the zero value.\<close>

definition rb_init :: "nat \<Rightarrow> 'a \<Rightarrow> 'a RingBuffer" where
  "rb_init n z = \<lparr>rb_buffer = replicate n z, rb_read_idx = 0, rb_write_idx = 0, rb_count = 0\<rparr>"

definition rb_kCapacity :: "'a RingBuffer \<Rightarrow> nat" where
  "rb_kCapacity rb = length (rb_buffer rb)"

definition rb_size :: "'a RingBuffer \<Rightarrow> nat" where
  "rb_size rb = rb_count rb"

definition rb_available :: "'a RingBuffer \<Rightarrow> nat" where
  "rb_available rb = rb_kCapacity rb - rb_count rb"

definition rb_empty :: "'a RingBuffer \<Rightarrow> bool" where
  "rb_empty rb \<longleftrightarrow> rb_count rb = 0"

fun rb_push_loop :: "'a list \<Rightarrow> 'a RingBuffer \<Rightarrow> 'a RingBuffer" where
  "rb_push_loop [] rb = rb"
| "rb_push_loop (d # ds) rb =
     rb_push_loop ds
       (rb\<lparr>rb_buffer := (rb_buffer rb)[rb_write_idx rb := d],
           rb_write_idx := (rb_write_idx rb + 1) mod rb_kCapacity rb\<rparr>)"

definition rb_push :: "'a list \<Rightarrow> 'a RingBuffer \<Rightarrow> bool \<times> 'a RingBuffer" where
  "rb_push data rb =
     (if rb_available rb < length data then (False, rb)
      else let rb' = rb_push_loop data rb
           in (True, rb'\<lparr>rb_count := rb_count rb' + length data\<rparr>))"

fun rb_peek_loop :: "nat \<Rightarrow> nat \<Rightarrow> 'a RingBuffer \<Rightarrow> 'a list" where
  "rb_peek_loop 0 idx rb = []"
| "rb_peek_loop (Suc n) idx rb =
     rb_buffer rb ! idx # rb_peek_loop n ((idx + 1) mod rb_kCapacity rb) rb"

text \<open>The elements \<^verbatim>\<open>peek\<close> stores to its output array; their number is its result.\<close>

definition rb_peek :: "nat \<Rightarrow> 'a RingBuffer \<Rightarrow> 'a list" where
  "rb_peek max_len rb = rb_peek_loop (min max_len (rb_count rb)) (rb_read_idx rb) rb"

definition rb_advance :: "nat \<Rightarrow> 'a RingBuffer \<Rightarrow> 'a RingBuffer" where
  "rb_advance len rb =
     (let len' = (if len > rb_count rb then rb_count rb else len)
      in rb\<lparr>rb_read_idx := (rb_read_idx rb + len') mod rb_kCapacity rb,
            rb_count := rb_count rb - len'\<rparr>)"

definition rb_clear :: "'a RingBuffer \<Rightarrow> 'a RingBuffer" where
  "rb_clear rb = rb\<lparr>rb_read_idx := 0, rb_write_idx := 0, rb_count := 0\<rparr>"

text \<open>
  \<^verbatim>\<open>view\<close> is a pointer to \<open>buffer_ + read_idx_\<close> with length \<open>count_\<close>. The result is
  \<^const>\<open>None\<close> when that range runs past the end of the array.
\<close>

definition rb_view :: "'a RingBuffer \<Rightarrow> 'a list option" where
  "rb_view rb =
     (if rb_empty rb then Some []
      else if rb_read_idx rb + rb_count rb \<le> rb_kCapacity rb
      then Some (take (rb_count rb) (drop (rb_read_idx rb) (rb_buffer rb)))
      else None)"

text \<open>An iovec over the array: the offset of its base from \<^verbatim>\<open>buffer_.data()\<close> and its length.\<close>

record iovec =
  iov_base :: nat
  iov_len :: nat

definition rb_fill_iovec :: "nat \<Rightarrow> 'a RingBuffer \<Rightarrow> iovec list" where
  "rb_fill_iovec max_iov rb =
     (if rb_empty rb \<or> max_iov = 0 then []
      else let contiguous = rb_kCapacity rb - rb_read_idx rb in
        if contiguous \<ge> rb_count rb
        then [\<lparr>iov_base = rb_read_idx rb, iov_len = rb_count rb\<rparr>]
        else if max_iov < 2
        then [\<lparr>iov_base = rb_read_idx rb, iov_len = contiguous\<rparr>]
        else [\<lparr>iov_base = rb_read_idx rb, iov_len = contiguous\<rparr>,
              \<lparr>iov_base = 0, iov_len = rb_count rb - contiguous\<rparr>])"

definition rb_fill_iovec_write :: "nat \<Rightarrow> 'a RingBuffer \<Rightarrow> iovec list" where
  "rb_fill_iovec_write max_iov rb =
     (let avail = rb_available rb in
      if avail = 0 \<or> max_iov = 0 then []
      else let contiguous = rb_kCapacity rb - rb_write_idx rb in
        if contiguous \<ge> avail
        then [\<lparr>iov_base = rb_write_idx rb, iov_len = avail\<rparr>]
        else if max_iov < 2
        then [\<lparr>iov_base = rb_write_idx rb, iov_len = contiguous\<rparr>]
        else [\<lparr>iov_base = rb_write_idx rb, iov_len = contiguous\<rparr>,
              \<lparr>iov_base = 0, iov_len = avail - contiguous\<rparr>])"

definition rb_commit_write :: "nat \<Rightarrow> 'a RingBuffer \<Rightarrow> 'a RingBuffer" where
  "rb_commit_write len rb =
     (let len' = (if len > rb_available rb then rb_available rb else len)
      in rb\<lparr>rb_write_idx := (rb_write_idx rb + len') mod rb_kCapacity rb,
            rb_count := rb_count rb + len'\<rparr>)"

text \<open>The offset and length of \<^verbatim>\<open>read_ptr\<close>; \<^const>\<open>None\<close> is the null pointer.\<close>

definition rb_read_ptr :: "'a RingBuffer \<Rightarrow> nat option \<times> nat" where
  "rb_read_ptr rb =
     (if rb_empty rb then (None, 0)
      else let contiguous = rb_kCapacity rb - rb_read_idx rb
           in (Some (rb_read_idx rb),
               if contiguous \<ge> rb_count rb then rb_count rb else contiguous))"

text \<open>
  What the kernel does with an iovec list on the array: \<open>gather\<close> is the byte sequence
  \<^verbatim>\<open>writev\<close> sees, \<open>scatter\<close> stores a received sequence into the areas in order, as
  \<^verbatim>\<open>readv\<close> does; what no area holds is not stored.
\<close>

definition iov_gather :: "iovec list \<Rightarrow> 'a list \<Rightarrow> 'a list" where
  "iov_gather iov mem = concat (map (\<lambda>v. take (iov_len v) (drop (iov_base v) mem)) iov)"

definition iov_total :: "iovec list \<Rightarrow> nat" where
  "iov_total iov = sum_list (map iov_len iov)"

definition mem_store :: "nat \<Rightarrow> 'a list \<Rightarrow> 'a list \<Rightarrow> 'a list" where
  "mem_store off bs mem = take off mem @ bs @ drop (off + length bs) mem"

fun iov_scatter :: "iovec list \<Rightarrow> 'a list \<Rightarrow> 'a list \<Rightarrow> 'a list" where
  "iov_scatter [] bs mem = mem"
| "iov_scatter (v # vs) bs mem =
     iov_scatter vs (drop (iov_len v) bs) (mem_store (iov_base v) (take (iov_len v) bs) mem)"

section \<open>Invariant and the queue a buffer stores\<close>

definition rb_inv :: "'a RingBuffer \<Rightarrow> bool" where
  "rb_inv rb \<longleftrightarrow> rb_kCapacity rb > 0 \<and> rb_read_idx rb < rb_kCapacity rb \<and>
     rb_count rb \<le> rb_kCapacity rb \<and>
     rb_write_idx rb = (rb_read_idx rb + rb_count rb) mod rb_kCapacity rb"

definition rb_contents :: "'a RingBuffer \<Rightarrow> 'a list" where
  "rb_contents rb =
     map (\<lambda>i. rb_buffer rb ! ((rb_read_idx rb + i) mod rb_kCapacity rb)) [0..<rb_count rb]"

section \<open>Lemmas on the loops\<close>

lemma rb_kCapacity_update [simp]:
  "rb_kCapacity (rb\<lparr>rb_read_idx := r\<rparr>) = rb_kCapacity rb"
  "rb_kCapacity (rb\<lparr>rb_write_idx := w\<rparr>) = rb_kCapacity rb"
  "rb_kCapacity (rb\<lparr>rb_count := c\<rparr>) = rb_kCapacity rb"
  "rb_kCapacity (rb\<lparr>rb_buffer := (rb_buffer rb)[i := d]\<rparr>) = rb_kCapacity rb"
  by (simp_all add: rb_kCapacity_def)

lemma rb_push_loop_fields [simp]:
  "rb_kCapacity (rb_push_loop ds rb) = rb_kCapacity rb"
  "rb_read_idx (rb_push_loop ds rb) = rb_read_idx rb"
  "rb_count (rb_push_loop ds rb) = rb_count rb"
  by (induction ds arbitrary: rb) (simp_all add: rb_kCapacity_def)

lemma rb_push_loop_write_idx:
  "rb_write_idx rb < rb_kCapacity rb \<Longrightarrow>
   rb_write_idx (rb_push_loop ds rb) = (rb_write_idx rb + length ds) mod rb_kCapacity rb"
proof (induction ds arbitrary: rb)
  case (Cons d ds)
  then have "0 < rb_kCapacity rb" by linarith
  with Cons.IH show ?case
    by (simp add: rb_kCapacity_def mod_Suc_eq mod_add_left_eq)
qed simp

lemma rb_push_loop_other:
  assumes "\<And>i. i < length ds \<Longrightarrow> j \<noteq> (rb_write_idx rb + i) mod rb_kCapacity rb"
    and "rb_write_idx rb < rb_kCapacity rb"
  shows "rb_buffer (rb_push_loop ds rb) ! j = rb_buffer rb ! j"
  using assms
proof (induction ds arbitrary: rb)
  case (Cons d ds)
  let ?rb = "rb\<lparr>rb_buffer := (rb_buffer rb)[rb_write_idx rb := d],
                rb_write_idx := (rb_write_idx rb + 1) mod rb_kCapacity rb\<rparr>"
  have cap: "rb_kCapacity ?rb = rb_kCapacity rb" by (simp add: rb_kCapacity_def)
  have "j \<noteq> (rb_write_idx ?rb + i) mod rb_kCapacity ?rb" if "i < length ds" for i
    using Cons.prems(1) [of "Suc i"] that by (simp add: mod_succ_plus)
  moreover have "rb_write_idx ?rb < rb_kCapacity ?rb" using Cons.prems(2) cap by simp
  ultimately have "rb_buffer (rb_push_loop ds ?rb) ! j = rb_buffer ?rb ! j"
    by (rule Cons.IH)
  moreover have "j \<noteq> rb_write_idx rb" using Cons.prems(1) [of 0] Cons.prems(2) by simp
  ultimately show ?case by simp
qed simp

lemma rb_push_loop_nth:
  assumes "rb_write_idx rb < rb_kCapacity rb" and "length ds \<le> rb_kCapacity rb"
    and "i < length ds"
  shows "rb_buffer (rb_push_loop ds rb) ! ((rb_write_idx rb + i) mod rb_kCapacity rb) = ds ! i"
  using assms
proof (induction ds arbitrary: rb i)
  case (Cons d ds)
  let ?c = "rb_kCapacity rb" and ?w = "rb_write_idx rb"
  let ?rb = "rb\<lparr>rb_buffer := (rb_buffer rb)[?w := d], rb_write_idx := (?w + 1) mod ?c\<rparr>"
  have cap: "rb_kCapacity ?rb = ?c" by (simp add: rb_kCapacity_def)
  have w: "rb_write_idx ?rb < rb_kCapacity ?rb" using Cons.prems(1) cap by simp
  show ?case
  proof (cases i)
    case 0
    have "?w \<noteq> (rb_write_idx ?rb + k) mod rb_kCapacity ?rb" if "k < length ds" for k
    proof
      assume "?w = (rb_write_idx ?rb + k) mod rb_kCapacity ?rb"
      then have "(?w + 0) mod ?c = (?w + Suc k) mod ?c"
        using Cons.prems(1) by (simp add: mod_succ_plus)
      from mod_plus_inj [OF this] Cons.prems(1,2) that show False by simp
    qed
    then have "rb_buffer (rb_push_loop ds ?rb) ! ?w = rb_buffer ?rb ! ?w"
      using w by (rule rb_push_loop_other)
    with 0 Cons.prems(1) show ?thesis by (simp add: rb_kCapacity_def)
  next
    case (Suc k)
    have "rb_buffer (rb_push_loop ds ?rb) ! ((rb_write_idx ?rb + k) mod rb_kCapacity ?rb) = ds ! k"
      using Cons.prems Suc w cap by (intro Cons.IH) simp_all
    with Suc show ?thesis by (simp add: mod_succ_plus)
  qed
qed simp

lemma rb_peek_loop_eq:
  "idx < rb_kCapacity rb \<Longrightarrow>
   rb_peek_loop n idx rb = map (\<lambda>i. rb_buffer rb ! ((idx + i) mod rb_kCapacity rb)) [0..<n]"
proof (induction n arbitrary: idx)
  case (Suc n)
  then have "0 < rb_kCapacity rb" by linarith
  with Suc have "rb_peek_loop n ((idx + 1) mod rb_kCapacity rb) rb =
      map (\<lambda>i. rb_buffer rb ! ((idx + Suc i) mod rb_kCapacity rb)) [0..<n]"
    by (simp add: mod_succ_plus)
  with Suc.prems show ?case
    by (simp add: upt_rec [of 0 "Suc n"] map_Suc_upt [symmetric] o_def del: upt_Suc)
qed simp

section \<open>The buffer is a bounded FIFO queue\<close>

lemma length_rb_contents [simp]: "length (rb_contents rb) = rb_count rb"
  by (simp add: rb_contents_def)

lemma rb_inv_init: "0 < n \<Longrightarrow> rb_inv (rb_init n z)"
  by (simp add: rb_inv_def rb_init_def rb_kCapacity_def)

lemma rb_contents_init [ring_simps]: "rb_contents (rb_init n z) = []"
  by (simp add: rb_contents_def rb_init_def)

lemma rb_capacity_init [ring_simps]: "rb_kCapacity (rb_init n z) = n"
  by (simp add: rb_kCapacity_def rb_init_def)

lemma rb_peek_contents [ring_simps]:
  "rb_inv rb \<Longrightarrow> rb_peek n rb = take n (rb_contents rb)"
  by (simp add: rb_peek_def rb_contents_def rb_inv_def rb_peek_loop_eq take_map_upt)

lemma rb_push_refuse [ring_simps]:
  "rb_available rb < length ds \<Longrightarrow> rb_push ds rb = (False, rb)"
  by (simp add: rb_push_def)

lemma rb_push_capacity [ring_simps]: "rb_kCapacity (snd (rb_push ds rb)) = rb_kCapacity rb"
  by (simp add: rb_push_def Let_def rb_kCapacity_def)
     (simp add: rb_kCapacity_def [symmetric])

lemma rb_push_ok [ring_simps]: "fst (rb_push ds rb) \<longleftrightarrow> length ds \<le> rb_available rb"
  by (simp add: rb_push_def Let_def not_less)

text \<open>
  Storing \<open>ds\<close> at the write index, wherever the writes come from (the loop of
  \<^verbatim>\<open>push\<close> or the kernel through an iovec), appends \<open>ds\<close> to the queue.
\<close>

lemma rb_extend:
  assumes inv: "rb_inv rb" and fits: "length ds \<le> rb_available rb"
    and cap: "length buf = rb_kCapacity rb"
    and new: "\<And>i. i < length ds \<Longrightarrow> buf ! ((rb_write_idx rb + i) mod rb_kCapacity rb) = ds ! i"
    and old: "\<And>j. (\<And>i. i < length ds \<Longrightarrow> j \<noteq> (rb_write_idx rb + i) mod rb_kCapacity rb) \<Longrightarrow>
                j < rb_kCapacity rb \<Longrightarrow> buf ! j = rb_buffer rb ! j"
  defines "rb' \<equiv> rb\<lparr>rb_buffer := buf,
      rb_write_idx := (rb_write_idx rb + length ds) mod rb_kCapacity rb,
      rb_count := rb_count rb + length ds\<rparr>"
  shows "rb_inv rb'" and "rb_contents rb' = rb_contents rb @ ds"
proof -
  let ?c = "rb_kCapacity rb"
  have w: "rb_write_idx rb = (rb_read_idx rb + rb_count rb) mod ?c"
    using inv by (simp add: rb_inv_def)
  have bound: "rb_count rb + length ds \<le> ?c"
    using inv fits by (auto simp: rb_available_def rb_inv_def)
  have cap': "rb_kCapacity rb' = ?c" using cap by (simp add: rb'_def rb_kCapacity_def)
  show "rb_inv rb'"
    using inv bound cap' by (simp add: rb_inv_def) (simp add: rb'_def w mod_add_left_eq add.assoc)
  show "rb_contents rb' = rb_contents rb @ ds"
  proof (rule nth_equalityI)
    show "length (rb_contents rb') = length (rb_contents rb @ ds)" by (simp add: rb'_def)
    fix i assume "i < length (rb_contents rb')"
    then have i: "i < rb_count rb + length ds" by (simp add: rb'_def)
    then have nth: "rb_contents rb' ! i = buf ! ((rb_read_idx rb + i) mod ?c)"
      using cap' by (simp add: rb_contents_def) (simp add: rb'_def)
    show "rb_contents rb' ! i = (rb_contents rb @ ds) ! i"
    proof (cases "i < rb_count rb")
      case True
      have "(rb_read_idx rb + i) mod ?c \<noteq> (rb_write_idx rb + k) mod ?c" if "k < length ds" for k
      proof
        assume "(rb_read_idx rb + i) mod ?c = (rb_write_idx rb + k) mod ?c"
        then have "(rb_read_idx rb + i) mod ?c = (rb_read_idx rb + (rb_count rb + k)) mod ?c"
          by (simp add: w mod_add_left_eq add.assoc)
        from mod_plus_inj [OF this] True that bound show False by simp
      qed
      moreover have "(rb_read_idx rb + i) mod ?c < ?c" using inv by (simp add: rb_inv_def)
      ultimately have "buf ! ((rb_read_idx rb + i) mod ?c) =
          rb_buffer rb ! ((rb_read_idx rb + i) mod ?c)" by (rule old)
      with True nth show ?thesis by (simp add: nth_append rb_contents_def)
    next
      case False
      then obtain k where k: "i = rb_count rb + k" "k < length ds"
        using i by (metis add_diff_inverse_nat nat_add_left_cancel_less)
      with new [of k] nth show ?thesis
        by (simp add: nth_append w mod_add_left_eq add.assoc)
    qed
  qed
qed

lemma rb_push_result:
  "length ds \<le> rb_available rb \<Longrightarrow> rb_write_idx rb < rb_kCapacity rb \<Longrightarrow>
   snd (rb_push ds rb) = rb\<lparr>rb_buffer := rb_buffer (rb_push_loop ds rb),
      rb_write_idx := (rb_write_idx rb + length ds) mod rb_kCapacity rb,
      rb_count := rb_count rb + length ds\<rparr>"
  by (simp add: rb_push_def Let_def rb_push_loop_write_idx [symmetric])

lemma rb_push_appends:
  assumes "rb_inv rb" and "length ds \<le> rb_available rb"
  shows "rb_inv (snd (rb_push ds rb))"
    and "rb_contents (snd (rb_push ds rb)) = rb_contents rb @ ds"
proof -
  have w: "rb_write_idx rb < rb_kCapacity rb" using assms(1) by (simp add: rb_inv_def)
  have "length ds \<le> rb_kCapacity rb" using assms(2) by (simp add: rb_available_def)
  note nth = rb_push_loop_nth [OF w this]
  have cap: "length (rb_buffer (rb_push_loop ds rb)) = rb_kCapacity rb"
    using rb_push_loop_fields(1) [of ds rb] by (simp add: rb_kCapacity_def)
  note ext = rb_extend [OF assms cap nth rb_push_loop_other [OF _ w]]
  show "rb_inv (snd (rb_push ds rb))"
    and "rb_contents (snd (rb_push ds rb)) = rb_contents rb @ ds"
    unfolding rb_push_result [OF assms(2) w] by (rule ext; assumption)+
qed

lemma rb_push_inv: "rb_inv rb \<Longrightarrow> rb_inv (snd (rb_push ds rb))"
  by (cases "length ds \<le> rb_available rb") (simp_all add: rb_push_appends rb_push_refuse)

lemmas rb_push_contents [ring_simps] = rb_push_appends(2)

lemma rb_advance_capacity [ring_simps]: "rb_kCapacity (rb_advance n rb) = rb_kCapacity rb"
  by (simp add: rb_advance_def Let_def rb_kCapacity_def)

lemma rb_advance_cases:
  obtains "rb_count rb \<le> n" "rb_advance n rb =
      rb\<lparr>rb_read_idx := (rb_read_idx rb + rb_count rb) mod rb_kCapacity rb, rb_count := 0\<rparr>"
  | k where "rb_count rb = n + k" "rb_advance n rb =
      rb\<lparr>rb_read_idx := (rb_read_idx rb + n) mod rb_kCapacity rb, rb_count := k\<rparr>"
proof (cases "rb_count rb \<le> n")
  case True
  with that(1) show ?thesis by (cases "n = rb_count rb") (auto simp: rb_advance_def Let_def)
next
  case False
  with that(2) [of "rb_count rb - n"] show ?thesis by (simp add: rb_advance_def Let_def)
qed

lemma rb_advance_inv: "rb_inv rb \<Longrightarrow> rb_inv (rb_advance n rb)"
  by (cases rule: rb_advance_cases [of rb n])
     (auto simp: rb_inv_def mod_add_left_eq add.assoc)

lemma rb_advance_contents [ring_simps]:
  assumes "rb_inv rb" shows "rb_contents (rb_advance n rb) = drop n (rb_contents rb)"
proof (cases rule: rb_advance_cases [of rb n])
  case 1
  then show ?thesis by (simp add: rb_contents_def)
next
  case (2 k)
  then show ?thesis
    by (simp add: rb_contents_def drop_map_upt mod_add_left_eq mod_add_right_eq ac_simps)
qed

lemma rb_clear_inv: "rb_inv rb \<Longrightarrow> rb_inv (rb_clear rb)"
  by (simp add: rb_clear_def rb_inv_def rb_kCapacity_def)

lemma rb_clear_contents [ring_simps]: "rb_contents (rb_clear rb) = []"
  by (simp add: rb_clear_def rb_contents_def)

lemma rb_count_contents: "rb_count rb = length (rb_contents rb)"
  by simp

lemma rb_available_contents:
  "rb_available rb = rb_kCapacity rb - length (rb_contents rb)"
  by (simp add: rb_available_def)

section \<open>The iovec interface\<close>

lemma mod_once: "x < 2 * c \<Longrightarrow> x mod c = (if x < c then x else x - (c::nat))"
  by (simp add: mod_if)

lemma rb_contents_segments:
  assumes "rb_inv rb"
  shows "rb_contents rb =
    (if rb_count rb \<le> rb_kCapacity rb - rb_read_idx rb
     then take (rb_count rb) (drop (rb_read_idx rb) (rb_buffer rb))
     else drop (rb_read_idx rb) (rb_buffer rb) @
          take (rb_count rb - (rb_kCapacity rb - rb_read_idx rb)) (rb_buffer rb))"
  using assms
  by (intro nth_equalityI)
     (auto simp: rb_contents_def rb_inv_def rb_kCapacity_def mod_once nth_append min_def
       intro!: arg_cong [where f = "nth (rb_buffer rb)"])

lemma rb_fill_iovec_gather:
  assumes "rb_inv rb" and "2 \<le> m"
  shows "iov_gather (rb_fill_iovec m rb) (rb_buffer rb) = rb_contents rb"
  using assms rb_contents_segments [OF assms(1)]
  by (auto simp: rb_fill_iovec_def iov_gather_def Let_def rb_empty_def rb_kCapacity_def)

lemma rb_fill_iovec_prefix:
  assumes "rb_inv rb"
  shows "\<exists>rest. rb_contents rb = iov_gather (rb_fill_iovec m rb) (rb_buffer rb) @ rest"
  using rb_contents_segments [OF assms]
  by (auto simp: rb_fill_iovec_def iov_gather_def Let_def rb_empty_def rb_kCapacity_def)

lemma rb_fill_iovec_bounds:
  assumes "rb_inv rb" and "v \<in> set (rb_fill_iovec m rb)"
  shows "0 < iov_len v \<and> iov_base v + iov_len v \<le> rb_kCapacity rb"
  using assms
  by (auto simp: rb_fill_iovec_def Let_def rb_empty_def rb_inv_def split: if_splits)

lemma rb_fill_iovec_write_bounds:
  assumes "rb_inv rb" and "v \<in> set (rb_fill_iovec_write m rb)"
  shows "0 < iov_len v \<and> iov_base v + iov_len v \<le> rb_kCapacity rb"
  using assms
  by (auto simp: rb_fill_iovec_write_def Let_def rb_available_def rb_inv_def split: if_splits)

lemma rb_fill_iovec_write_total:
  "2 \<le> m \<Longrightarrow> rb_inv rb \<Longrightarrow> iov_total (rb_fill_iovec_write m rb) = rb_available rb"
  by (auto simp: rb_fill_iovec_write_def Let_def iov_total_def rb_inv_def)

lemma mem_store_nth:
  "off + length bs \<le> length mem \<Longrightarrow> j < length mem \<Longrightarrow>
   mem_store off bs mem ! j = (if off \<le> j \<and> j < off + length bs then bs ! (j - off) else mem ! j)"
  by (auto simp: mem_store_def nth_append)

lemma length_mem_store:
  "off + length bs \<le> length mem \<Longrightarrow> length (mem_store off bs mem) = length mem"
  by (simp add: mem_store_def)

text \<open>
  Receiving: the kernel scatters \<open>bs\<close> into the write areas and \<^verbatim>\<open>commit_write\<close> publishes
  them. As long as \<open>bs\<close> fits, that appends \<open>bs\<close> to the queue.
\<close>

definition rb_receive :: "'a list \<Rightarrow> 'a RingBuffer \<Rightarrow> 'a RingBuffer" where
  "rb_receive bs rb =
     rb_commit_write (length bs)
       (rb\<lparr>rb_buffer := iov_scatter (rb_fill_iovec_write 2 rb) bs (rb_buffer rb)\<rparr>)"

lemma length_iov_scatter:
  "\<forall>v \<in> set iov. iov_base v + iov_len v \<le> length mem \<Longrightarrow>
   length (iov_scatter iov bs mem) = length mem"
  by (induction iov arbitrary: bs mem) (simp_all add: length_mem_store min_def)

lemma rb_scatter_length:
  "rb_inv rb \<Longrightarrow>
   length (iov_scatter (rb_fill_iovec_write 2 rb) bs (rb_buffer rb)) = rb_kCapacity rb"
  using rb_fill_iovec_write_bounds [of rb]
  by (simp add: length_iov_scatter rb_kCapacity_def)

lemma rb_scatter_nth:
  assumes inv: "rb_inv rb" and fits: "length bs \<le> rb_available rb" and j: "j < rb_kCapacity rb"
  shows "iov_scatter (rb_fill_iovec_write 2 rb) bs (rb_buffer rb) ! j =
    (if rb_write_idx rb \<le> j \<and> j < rb_write_idx rb + length bs then bs ! (j - rb_write_idx rb)
     else if j + rb_kCapacity rb < rb_write_idx rb + length bs
     then bs ! (j + rb_kCapacity rb - rb_write_idx rb) else rb_buffer rb ! j)"
proof -
  have w: "rb_write_idx rb < rb_kCapacity rb" and avail: "rb_available rb \<le> rb_kCapacity rb"
    using inv by (simp_all add: rb_inv_def rb_available_def)
  let ?c = "rb_kCapacity rb" and ?w = "rb_write_idx rb" and ?mem = "rb_buffer rb"
  have c: "length ?mem = ?c" by (simp add: rb_kCapacity_def)
  show ?thesis
  proof (cases "rb_available rb \<le> ?c - ?w")
    case True
    then have "iov_scatter (rb_fill_iovec_write 2 rb) bs ?mem = mem_store ?w bs ?mem"
      using fits by (auto simp: rb_fill_iovec_write_def Let_def mem_store_def)
    moreover have "?w + length bs \<le> ?c" using True fits w by linarith
    ultimately show ?thesis using j c by (simp add: mem_store_nth)
  next
    case False
    let ?mem1 = "mem_store ?w (take (?c - ?w) bs) ?mem"
    have len1: "?w + length (take (?c - ?w) bs) \<le> length ?mem" using w c by simp
    then have len2: "length ?mem1 = ?c" using c by (simp add: length_mem_store)
    have "iov_scatter (rb_fill_iovec_write 2 rb) bs ?mem = mem_store 0 (drop (?c - ?w) bs) ?mem1"
      using False fits by (auto simp: rb_fill_iovec_write_def Let_def)
    moreover have "0 + length (drop (?c - ?w) bs) \<le> length ?mem1"
      using fits avail len2 by simp
    ultimately show ?thesis
      using w fits avail j c len2 mem_store_nth [OF len1, of j]
      by (auto simp: mem_store_nth min_def intro!: arg_cong [where f = "nth bs"])
  qed
qed

lemma rb_receive_appends:
  assumes inv: "rb_inv rb" and fits: "length bs \<le> rb_available rb"
  shows "rb_inv (rb_receive bs rb)" and "rb_contents (rb_receive bs rb) = rb_contents rb @ bs"
proof -
  let ?c = "rb_kCapacity rb" and ?w = "rb_write_idx rb"
  let ?buf = "iov_scatter (rb_fill_iovec_write 2 rb) bs (rb_buffer rb)"
  have w: "?w < ?c" using inv by (simp add: rb_inv_def)
  have len: "length bs \<le> ?c" using fits by (simp add: rb_available_def)
  have cap: "rb_kCapacity (rb\<lparr>rb_buffer := ?buf\<rparr>) = ?c"
    using rb_scatter_length [OF inv, of bs] by (simp add: rb_kCapacity_def)
  have eq: "rb_receive bs rb = rb\<lparr>rb_buffer := ?buf, rb_write_idx := (?w + length bs) mod ?c,
      rb_count := rb_count rb + length bs\<rparr>"
    using fits cap by (simp add: rb_receive_def rb_commit_write_def Let_def rb_available_def)
  have new: "?buf ! ((?w + i) mod ?c) = bs ! i" if "i < length bs" for i
    using that w len by (auto simp: rb_scatter_nth [OF inv fits] mod_once)
  have old: "?buf ! j = rb_buffer rb ! j"
    if out: "\<And>i. i < length bs \<Longrightarrow> j \<noteq> (?w + i) mod ?c" and j: "j < ?c" for j
  proof -
    have "\<not> (?w \<le> j \<and> j < ?w + length bs)"
    proof
      assume "?w \<le> j \<and> j < ?w + length bs"
      then have "j - ?w < length bs" and "(?w + (j - ?w)) mod ?c = j" using j by auto
      with out show False by metis
    qed
    moreover have "\<not> j + ?c < ?w + length bs"
    proof
      assume "j + ?c < ?w + length bs"
      then have "j + ?c - ?w < length bs" and "(?w + (j + ?c - ?w)) mod ?c = j"
        using j w by auto
      with out show False by metis
    qed
    ultimately show ?thesis using rb_scatter_nth [OF inv fits j] by auto
  qed
  note ext = rb_extend [OF inv fits rb_scatter_length [OF inv] new old]
  show "rb_inv (rb_receive bs rb)" and "rb_contents (rb_receive bs rb) = rb_contents rb @ bs"
    unfolding eq by (rule ext; assumption)+
qed

lemma rb_receive_inv: "rb_inv rb \<Longrightarrow> rb_inv (rb_receive bs rb)"
proof -
  assume inv: "rb_inv rb"
  then have "rb_kCapacity (rb\<lparr>rb_buffer := iov_scatter (rb_fill_iovec_write 2 rb) bs (rb_buffer rb)\<rparr>)
      = rb_kCapacity rb"
    using rb_scatter_length [OF inv, of bs] by (simp add: rb_kCapacity_def)
  with inv show ?thesis
    by (auto simp: rb_inv_def rb_receive_def rb_commit_write_def Let_def rb_available_def
        mod_add_left_eq add.assoc)
qed

lemma rb_receive_capacity [ring_simps]:
  "rb_inv rb \<Longrightarrow> rb_kCapacity (rb_receive bs rb) = rb_kCapacity rb"
  using rb_scatter_length [of rb bs]
  by (simp add: rb_receive_def rb_commit_write_def Let_def rb_kCapacity_def)

section \<open>The queue interface\<close>

text \<open>
  What the connection relies on: a bounded FIFO queue with all-or-nothing insertion, a
  non-consuming read and a clamped removal.
\<close>

locale byte_queue =
  fixes invar :: "'q \<Rightarrow> bool"
    and contents :: "'q \<Rightarrow> 'a list"
    and capacity :: "'q \<Rightarrow> nat"
    and push :: "'a list \<Rightarrow> 'q \<Rightarrow> bool \<times> 'q"
    and peek :: "nat \<Rightarrow> 'q \<Rightarrow> 'a list"
    and advance :: "nat \<Rightarrow> 'q \<Rightarrow> 'q"
  assumes bounded: "invar q \<Longrightarrow> length (contents q) \<le> capacity q"
    and push_accept: "invar q \<Longrightarrow> length (contents q) + length ds \<le> capacity q \<Longrightarrow>
      fst (push ds q) \<and> contents (snd (push ds q)) = contents q @ ds"
    and push_reject: "invar q \<Longrightarrow> capacity q < length (contents q) + length ds \<Longrightarrow>
      push ds q = (False, q)"
    and push_keeps: "invar q \<Longrightarrow> invar (snd (push ds q)) \<and> capacity (snd (push ds q)) = capacity q"
    and peek_prefix: "invar q \<Longrightarrow> peek n q = take n (contents q)"
    and advance_drops: "invar q \<Longrightarrow> contents (advance n q) = drop n (contents q)"
    and advance_keeps: "invar q \<Longrightarrow> invar (advance n q) \<and> capacity (advance n q) = capacity q"
begin

lemma push_iff:
  "invar q \<Longrightarrow> fst (push ds q) \<longleftrightarrow> length (contents q) + length ds \<le> capacity q"
  using push_accept [of q ds] push_reject [of q ds] by fastforce

lemma push_contents:
  "invar q \<Longrightarrow> contents (snd (push ds q)) =
     contents q @ (if length (contents q) + length ds \<le> capacity q then ds else [])"
  using push_accept [of q ds] push_reject [of q ds] by fastforce

text \<open>
  A run of insertions and removals: the accepted bytes are what was there, in order, followed
  by what is left.
\<close>

fun queue_run :: "('a list + nat) list \<Rightarrow> 'q \<Rightarrow> 'a list \<times> 'a list \<times> 'q" where
  "queue_run [] q = ([], [], q)"
| "queue_run (Inl ds # es) q =
     (let (ok, q') = push ds q; (i, d, q'') = queue_run es q'
      in ((if ok then ds else []) @ i, d, q''))"
| "queue_run (Inr n # es) q =
     (let (i, d, q'') = queue_run es (advance n q) in (i, peek n q @ d, q''))"

lemma queue_run_fifo:
  "invar q \<Longrightarrow> queue_run es q = (i, d, q') \<Longrightarrow> contents q @ i = d @ contents q' \<and> invar q'"
proof (induction es q arbitrary: i d q' rule: queue_run.induct)
  case (2 ds es q)
  obtain i1 d1 q1 where run: "queue_run es (snd (push ds q)) = (i1, d1, q1)"
    by (metis prod_cases3)
  with 2 have "contents (snd (push ds q)) @ i1 = d1 @ contents q1 \<and> invar q1"
    using push_keeps [of q ds] by (metis prod.collapse)
  with 2(2,3) run show ?case
    using push_accept [of q ds] push_reject [of q ds]
    by (cases "length (contents q) + length ds \<le> capacity q") (auto simp: split_beta Let_def)
next
  case (3 n es q)
  obtain i1 d1 q1 where run: "queue_run es (advance n q) = (i1, d1, q1)"
    by (metis prod_cases3)
  with 3 have "drop n (contents q) @ i1 = d1 @ contents q1 \<and> invar q1"
    using advance_keeps [of q n] advance_drops [of q n] by simp
  with 3(2,3) run show ?case
    by (auto simp: peek_prefix) (metis append.assoc append_take_drop_id)
qed simp

end

lemma rb_push_reject:
  "rb_inv rb \<Longrightarrow> rb_kCapacity rb < length (rb_contents rb) + length ds \<Longrightarrow> rb_push ds rb = (False, rb)"
  by (auto simp: rb_push_def rb_available_def rb_inv_def)

interpretation rbq: byte_queue rb_inv rb_contents rb_kCapacity rb_push rb_peek rb_advance
proof unfold_locales
  fix q :: "'a RingBuffer" and ds :: "'a list" and n :: nat
  assume inv: "rb_inv q"
  then show le: "length (rb_contents q) \<le> rb_kCapacity q" by (simp add: rb_inv_def)
  show "fst (rb_push ds q) \<and> rb_contents (snd (rb_push ds q)) = rb_contents q @ ds"
    if "length (rb_contents q) + length ds \<le> rb_kCapacity q"
    using that inv by (simp add: ring_simps rb_available_def)
  show "rb_push ds q = (False, q)" if "rb_kCapacity q < length (rb_contents q) + length ds"
    using inv that by (rule rb_push_reject)
  show "rb_inv (snd (rb_push ds q)) \<and> rb_kCapacity (snd (rb_push ds q)) = rb_kCapacity q"
    using inv by (simp add: rb_push_inv rb_push_capacity)
  show "rb_peek n q = take n (rb_contents q)" using inv by (rule rb_peek_contents)
  show "rb_contents (rb_advance n q) = drop n (rb_contents q)"
    using inv by (rule rb_advance_contents)
  show "rb_inv (rb_advance n q) \<and> rb_kCapacity (rb_advance n q) = rb_kCapacity q"
    using inv by (simp add: rb_advance_inv rb_advance_capacity)
qed

section \<open>Properties\<close>



text \<open>\<^verbatim>\<open>push\<close> is all-or-nothing: it succeeds exactly when the data fits into the free
  space; then the data is appended, and otherwise the buffer is unchanged. Capacity and
  invariant are kept.\<close>

lemma push_all_or_nothing:
  assumes "rb_inv rb"
  shows "(fst (rb_push ds rb) \<longleftrightarrow> length (rb_contents rb) + length ds \<le> rb_kCapacity rb) \<and>
    (fst (rb_push ds rb) \<longrightarrow> rb_contents (snd (rb_push ds rb)) = rb_contents rb @ ds) \<and>
    (\<not> fst (rb_push ds rb) \<longrightarrow> snd (rb_push ds rb) = rb) \<and>
    rb_inv (snd (rb_push ds rb)) \<and> rb_kCapacity (snd (rb_push ds rb)) = rb_kCapacity rb"
proof (cases "length (rb_contents rb) + length ds \<le> rb_kCapacity rb")
  case True
  with rbq.push_accept [OF assms True] rb_push_inv [OF assms] show ?thesis by (simp add: rb_push_capacity)
next
  case False
  with rb_push_reject [OF assms, of ds] assms show ?thesis by simp
qed

text \<open>Receiving through the iovec interface is appending. When \<^verbatim>\<open>readv\<close> stores bytes into
  the areas of \<^verbatim>\<open>fill_iovec_write\<close> and \<^verbatim>\<open>commit_write\<close> publishes them, the queue grows by
  exactly these bytes, across the wrap-around of the array; the areas cover the free space
  exactly and lie inside the array.\<close>

lemma receive_appends:
  assumes "rb_inv rb" and "length bs \<le> rb_available rb"
  shows "rb_contents (rb_receive bs rb) = rb_contents rb @ bs \<and> rb_inv (rb_receive bs rb) \<and>
    iov_total (rb_fill_iovec_write 2 rb) = rb_available rb \<and>
    (\<forall>v \<in> set (rb_fill_iovec_write 2 rb). iov_base v + iov_len v \<le> rb_kCapacity rb)"
  using rb_receive_appends [OF assms] rb_fill_iovec_write_bounds [OF assms(1)]
    rb_fill_iovec_write_total [OF _ assms(1), of 2] by auto

text \<open>What \<^verbatim>\<open>fill_iovec\<close> offers to \<^verbatim>\<open>writev\<close> is the whole queue, in order, in at most two
  areas inside the array.\<close>

lemma gather_is_contents:
  assumes "rb_inv rb"
  shows "iov_gather (rb_fill_iovec 2 rb) (rb_buffer rb) = rb_contents rb \<and>
    length (rb_fill_iovec 2 rb) \<le> 2 \<and>
    (\<forall>v \<in> set (rb_fill_iovec 2 rb). iov_base v + iov_len v \<le> rb_kCapacity rb)"
proof -
  have "length (rb_fill_iovec 2 rb) \<le> 2" by (simp add: rb_fill_iovec_def Let_def)
  with rb_fill_iovec_gather [OF assms, of 2] rb_fill_iovec_bounds [OF assms] show ?thesis by simp
qed

text \<open>\<^verbatim>\<open>view\<close> is right only while the queue does not wrap: it then shows exactly the
  queue; on a wrapped queue the range it returns passes the end of the array.\<close>

lemma view_unless_wrapped:
  assumes "rb_inv rb"
  shows "rb_view rb =
    (if rb_read_idx rb + rb_count rb \<le> rb_kCapacity rb then Some (rb_contents rb) else None)"
proof (cases "rb_count rb = 0")
  case True
  with assms show ?thesis by (simp add: rb_view_def rb_empty_def rb_contents_def rb_inv_def)
next
  case False
  have "rb_read_idx rb < rb_kCapacity rb" using assms by (simp add: rb_inv_def)
  then have "rb_count rb \<le> rb_kCapacity rb - rb_read_idx rb \<longleftrightarrow> rb_read_idx rb + rb_count rb \<le> rb_kCapacity rb"
    by linarith
  with False show ?thesis
    by (simp add: rb_view_def rb_empty_def rb_contents_segments [OF assms])
qed

end
