(* ===== verification/Ws_Frame.thy ===== *)
theory Ws_Frame
  imports Ewss_Prelude
begin

text \<open>
  The frame utilities of namespace \<^verbatim>\<open>ws\<close> in \<^verbatim>\<open>src/include/ewss.hpp\<close>: opcodes,
  frame headers, \<^verbatim>\<open>parse_frame_header\<close>, \<^verbatim>\<open>encode_frame\<close> and
  \<^verbatim>\<open>encode_frame_header\<close>. Payload lengths are \<^verbatim>\<open>uint64_t\<close>, hence 64-bit words.
\<close>

section \<open>Opcodes and headers\<close>

text \<open>
  \<^verbatim>\<open>enum class OpCode : uint8_t\<close> has a fixed underlying type, so that the cast in
  \<^verbatim>\<open>parse_frame_header\<close> yields a value for every byte; \<open>kUnnamed\<close> holds those without
  an enumerator.
\<close>

datatype OpCode = kContinuation | kText | kBinary | kClose | kPing | kPong | kUnnamed u8

definition opcode_of_u8 :: "u8 \<Rightarrow> OpCode" where
  "opcode_of_u8 b =
     (if b = 0x0 then kContinuation else if b = 0x1 then kText else if b = 0x2 then kBinary
      else if b = 0x8 then kClose else if b = 0x9 then kPing else if b = 0xA then kPong
      else kUnnamed b)"

fun u8_of_opcode :: "OpCode \<Rightarrow> u8" where
  "u8_of_opcode kContinuation = 0x0"
| "u8_of_opcode kText = 0x1"
| "u8_of_opcode kBinary = 0x2"
| "u8_of_opcode kClose = 0x8"
| "u8_of_opcode kPing = 0x9"
| "u8_of_opcode kPong = 0xA"
| "u8_of_opcode (kUnnamed b) = b"

record FrameHeader =
  fin :: bool
  opcode :: OpCode
  masked :: bool
  payload_len :: u64

section \<open>Parsing\<close>

text \<open>The big-endian accumulation loop of the 64-bit length field.\<close>

fun be_accumulate :: "bytes \<Rightarrow> u64 \<Rightarrow> u64" where
  "be_accumulate [] len = len"
| "be_accumulate (b # bs) len = be_accumulate bs (push_bit 8 len OR ucast b)"

text \<open>
  The extended length: the payload length and the header size so far, \<^const>\<open>None\<close> when the data
  ends inside the field.
\<close>

definition parse_ext_len :: "bytes \<Rightarrow> u64 \<Rightarrow> (u64 \<times> nat) option" where
  "parse_ext_len data len =
     (if len = 126 then
        (if length data < 4 then None
         else Some (push_bit 8 (ucast (data ! 2)) OR ucast (data ! 3), 4))
      else if len = 127 then
        (if length data < 10 then None else Some (be_accumulate (take 8 (drop 2 data)) 0, 10))
      else Some (len, 2))"

text \<open>
  \<^verbatim>\<open>parse_frame_header\<close> returns the header size, 0 when the data is too short, and
  stores to its reference parameter as it goes: the second component is what that parameter
  holds on return, also after an early return.
\<close>

definition parse_frame_header :: "bytes \<Rightarrow> FrameHeader \<Rightarrow> nat \<times> FrameHeader" where
  "parse_frame_header data h0 =
     (if length data < 2 then (0, h0)
      else let
        h1 = h0\<lparr>fin := (data ! 0) AND 0x80 \<noteq> 0,
                opcode := opcode_of_u8 ((data ! 0) AND 0x0F),
                masked := (data ! 1) AND 0x80 \<noteq> 0\<rparr>
      in case parse_ext_len data (ucast ((data ! 1) AND 0x7F)) of
           None \<Rightarrow> (0, h1)
         | Some (len, header_size) \<Rightarrow>
             let h2 = h1\<lparr>payload_len := len\<rparr> in
             if masked h2 then
               (if length data < header_size + 4 then (0, h2) else (header_size + 4, h2))
             else (header_size, h2))"

section \<open>Encoding\<close>

definition mask_bit :: "bool \<Rightarrow> u64" where
  "mask_bit msk = (if msk then 0x80 else 0x00)"

text \<open>
  The 64-bit length field: \<^verbatim>\<open>for (int i = 7; i >= 0; --i)\<close> emits byte \<open>i\<close>; the argument
  of the loop below is \<open>i + 1\<close>.
\<close>

fun be_bytes :: "nat \<Rightarrow> u64 \<Rightarrow> bytes" where
  "be_bytes 0 len = []"
| "be_bytes (Suc i) len = ucast (drop_bit (i * 8) len AND 0xFF) # be_bytes i len"

definition encode_frame :: "OpCode \<Rightarrow> bytes \<Rightarrow> bool \<Rightarrow> bytes" where
  "encode_frame op payload msk =
     (let frame = [0x80 OR u8_of_opcode op];
          len = (word_of_nat (length payload) :: u64);
          frame' =
            (if len < 126 then frame @ [ucast (mask_bit msk OR len)]
             else if len < 65536 then
               frame @ [ucast (mask_bit msk OR 126)] @ [ucast (drop_bit 8 len AND 0xFF)] @
               [ucast (len AND 0xFF)]
             else frame @ [ucast (mask_bit msk OR 127)] @ be_bytes 8 len)
      in frame' @ payload)"

text \<open>
  \<^verbatim>\<open>encode_frame_header\<close> writes to a caller's array through \<^verbatim>\<open>buf[pos++]\<close>; the state is
  the array and \<open>pos\<close>. A write past the array is \<^const>\<open>None\<close>.
\<close>

definition put_byte :: "u8 \<Rightarrow> (bytes \<times> nat) option \<Rightarrow> (bytes \<times> nat) option" where
  "put_byte b st =
     (case st of None \<Rightarrow> None
      | Some (buf, pos) \<Rightarrow> if pos < length buf then Some (buf[pos := b], pos + 1) else None)"

fun put_be_bytes :: "nat \<Rightarrow> u64 \<Rightarrow> (bytes \<times> nat) option \<Rightarrow> (bytes \<times> nat) option" where
  "put_be_bytes 0 len st = st"
| "put_be_bytes (Suc i) len st =
     put_be_bytes i len (put_byte (ucast (drop_bit (i * 8) len AND 0xFF)) st)"

definition encode_frame_header ::
    "bytes \<Rightarrow> OpCode \<Rightarrow> u64 \<Rightarrow> bool \<Rightarrow> (bytes \<times> nat) option" where
  "encode_frame_header buf op len msk =
     (let st = put_byte (0x80 OR u8_of_opcode op) (Some (buf, 0)) in
      if len < 126 then put_byte (ucast (mask_bit msk OR len)) st
      else if len < 65536 then
        put_byte (ucast (len AND 0xFF))
          (put_byte (ucast (drop_bit 8 len AND 0xFF)) (put_byte (ucast (mask_bit msk OR 126)) st))
      else put_be_bytes 8 len (put_byte (ucast (mask_bit msk OR 127)) st))"

section \<open>The header format\<close>

text \<open>
  The bytes of a header, as RFC 6455 lays them out: the reference both encoders and the parser
  are compared with. An opcode is well-formed when it is what the parser makes of its four bits.
\<close>

definition header_bytes :: "OpCode \<Rightarrow> u64 \<Rightarrow> bool \<Rightarrow> bytes" where
  "header_bytes op len msk =
     (0x80 OR u8_of_opcode op) #
     (if len < 126 then [ucast (mask_bit msk OR len)]
      else if len < 65536 then
        [ucast (mask_bit msk OR 126), ucast (drop_bit 8 len AND 0xFF), ucast (len AND 0xFF)]
      else ucast (mask_bit msk OR 127) # be_bytes 8 len)"

lemma length_be_bytes [simp]: "length (be_bytes n len) = n"
  by (induction n) auto

lemma encode_frame_header_bytes:
  "encode_frame op payload msk = header_bytes op (word_of_nat (length payload)) msk @ payload"
  by (simp add: encode_frame_def header_bytes_def Let_def)

lemma length_field_low: "len < 128 \<Longrightarrow> (ucast ((ucast (mask_bit msk OR len) :: u8) AND 0x7F) :: u64) = len"
  by (rule bit_word_eqI) 
     (auto simp: bit_simps mask_bit_def and_127 bit_128 dest: small_bits [of len 7, simplified])

lemma length_field_masked: "len < 128 \<Longrightarrow> (ucast (mask_bit msk OR len) :: u8) AND 0x80 \<noteq> 0 \<longleftrightarrow> msk"
  unfolding and_128
  by (auto simp: bit_simps mask_bit_def bit_128 dest: small_bits [of len 7, simplified])

lemma length_field_16:
  "len < 65536 \<Longrightarrow> push_bit 8 (ucast (ucast (drop_bit 8 len AND 0xFF) :: u8)) OR
     (ucast (ucast (len AND 0xFF) :: u8) :: u64) = len"
  by (rule bit_word_eqI)
     (auto simp: bit_simps and_255 dest: small_bits [of len 16, simplified])

lemma be_accumulate_be_bytes:
  "be_accumulate (be_bytes n len) acc = push_bit (8 * n) acc OR take_bit (8 * n) len"
proof (induction n arbitrary: acc)
  case (Suc n)
  have "push_bit (8 * n) (push_bit 8 acc OR ucast (ucast (drop_bit (n * 8) len AND 0xFF) :: u8)) OR
     take_bit (8 * n) len = push_bit (8 * n + 8) acc OR take_bit (8 * n + 8) len"
    by (rule bit_word_eqI) (auto simp: bit_simps and_255)
  with Suc show ?case by (simp add: add.commute)
qed simp

lemma length_field_64: "be_accumulate (be_bytes 8 len) 0 = len"
  by (simp add: be_accumulate_be_bytes take_bit_word_eq_self)

lemma first_byte_opcode: "(0x80 OR x) AND 0x0F = x AND (0x0F :: u8)"
  by (simp add: word_ao_dist)
lemma first_byte_fin: "(0x80 OR x) AND 0x80 \<noteq> (0 :: u8)"
  unfolding and_128 by (simp add: bit_simps bit_128)

definition opcode_wf :: "OpCode \<Rightarrow> bool" where
  "opcode_wf op \<longleftrightarrow> opcode_of_u8 (u8_of_opcode op AND 0x0F) = op"

lemma parse_header_bytes:
  assumes "opcode_wf op" and "msk \<longrightarrow> 4 \<le> length rest"
  shows "parse_frame_header (header_bytes op len msk @ rest) h =
    (length (header_bytes op len msk) + (if msk then 4 else 0),
     h\<lparr>fin := True, opcode := op, masked := msk, payload_len := len\<rparr>)"
proof -
  have b0: "(0x80 OR u8_of_opcode op) AND 0x80 \<noteq> 0" "opcode_of_u8 ((0x80 OR u8_of_opcode op) AND 0x0F) = op"
    using assms(1) by (simp_all only: first_byte_fin first_byte_opcode opcode_wf_def) simp
  consider "len < 126" | "\<not> len < 126" "len < 65536" | "\<not> len < 126" "\<not> len < 65536" by blast
  then show ?thesis
  proof cases
    case 1
    then have "len < 128" "len \<noteq> 126" "len \<noteq> 127" using order.strict_trans [of len 126 128] by auto
    with 1 show ?thesis using assms(2) b0 length_field_low[of len msk] length_field_masked[of len msk]
      by (cases msk) (simp_all add: parse_frame_header_def parse_ext_len_def header_bytes_def Let_def)
  next
    case 2
    then show ?thesis using assms(2) b0 length_field_low[of 126 msk] length_field_masked[of 126 msk]
        length_field_16 [of len]
      by (cases msk) (simp_all add: parse_frame_header_def parse_ext_len_def header_bytes_def Let_def)
  next
    case 3
    then show ?thesis using assms(2) b0 length_field_low[of 127 msk] length_field_masked[of 127 msk]
        length_field_64 [of len]
      by (cases msk) (simp_all add: parse_frame_header_def parse_ext_len_def header_bytes_def Let_def)
  qed
qed

lemma put_be_bytes_fold: "put_be_bytes n len st = fold put_byte (be_bytes n len) st"
  by (induction n arbitrary: st) simp_all

lemma fold_put_byte:
  "pos + length bs \<le> length buf \<Longrightarrow> fold put_byte bs (Some (buf, pos)) =
     Some (take pos buf @ bs @ drop (pos + length bs) buf, pos + length bs)"
proof (induction bs arbitrary: buf pos)
  case (Cons b bs)
  have upd: "take (Suc pos) (buf[pos := b]) = take pos buf @ [b]"
    using Cons.prems by (simp add: take_Suc_conv_app_nth)
  have "drop (Suc (pos + length bs)) (buf[pos := b]) = drop (Suc (pos + length bs)) buf"
    by simp
  with Cons upd show ?case by (simp add: put_byte_def)
qed simp

lemma encode_frame_header_fold:
  "encode_frame_header buf op len msk = fold put_byte (header_bytes op len msk) (Some (buf, 0))"
  by (simp add: encode_frame_header_def header_bytes_def Let_def put_be_bytes_fold)

lemma length_header_bytes:
  "length (header_bytes op len msk) = (if len < 126 then 2 else if len < 65536 then 4 else 10)"
  by (simp add: header_bytes_def)

lemma encode_frame_header_writes:
  assumes "10 \<le> length buf"
  shows "encode_frame_header buf op len msk =
    Some (header_bytes op len msk @ drop (length (header_bytes op len msk)) buf,
          length (header_bytes op len msk))"
proof -
  have "length (header_bytes op len msk) \<le> length buf"
    using assms by (auto simp: length_header_bytes)
  then show ?thesis using fold_put_byte [of 0 "header_bytes op len msk" buf]
    by (simp add: encode_frame_header_fold)
qed

lemma parse_ext_len_size:
  "2 \<le> length data \<Longrightarrow> parse_ext_len data len = Some (l, n) \<Longrightarrow> n \<le> length data \<and> n \<in> {2, 4, 10}"
  by (auto simp: parse_ext_len_def split: if_splits)

lemma parse_ext_len_append:
  "parse_ext_len data len = Some r \<Longrightarrow> parse_ext_len (data @ tail) len = Some r"
  by (auto simp: parse_ext_len_def nth_append split: if_splits)

lemma parse_frame_header_size:
  "fst (parse_frame_header data h) \<le> length data \<and>
   fst (parse_frame_header data h) \<in> {0, 2, 4, 6, 8, 10, 14}"
  using parse_ext_len_size [of data "ucast ((data ! 1) AND 0x7F)"]
  by (auto simp: parse_frame_header_def Let_def split: option.splits)

lemma parse_frame_header_append:
  assumes "0 < fst (parse_frame_header data h)"
  shows "parse_frame_header (data @ tail) h = parse_frame_header data h"
proof -
  have two: "2 \<le> length data" using assms by (simp add: parse_frame_header_def split: if_splits)
  then have nth: "(data @ tail) ! 0 = data ! 0" "(data @ tail) ! 1 = data ! 1"
    by (auto simp: nth_append)
  obtain len n where ext: "parse_ext_len data (ucast ((data ! 1) AND 0x7F)) = Some (len, n)"
    using assms two
    by (cases "parse_ext_len data (ucast ((data ! 1) AND 0x7F))")
       (auto simp: parse_frame_header_def Let_def)
  show ?thesis
    using assms two ext parse_ext_len_append [OF ext, of tail]
    by (simp add: parse_frame_header_def nth [unfolded One_nat_def] Let_def split: if_splits)
qed

lemma parse_frame_header_short:
  assumes "fst (parse_frame_header data h) = 0"
  shows "length data < 14"
  using assms parse_ext_len_size [of data "ucast ((data ! 1) AND 0x7F)"]
  by (auto simp: parse_frame_header_def parse_ext_len_def Let_def split: option.splits if_splits)

section \<open>Properties\<close>

text \<open>Round trip of frame headers. Whatever \<^verbatim>\<open>encode_frame_header\<close> writes for a
  well-formed opcode, any 64-bit payload length and either mask flag, \<^verbatim>\<open>parse_frame_header\<close>
  reads back, in all three length encodings; the header size it returns is the number of bytes
  written, plus the four bytes of the key when the flag is set and a key follows.\<close>

lemma header_round_trip:
  assumes "opcode_wf op" and "10 \<le> length buf" and "msk \<longrightarrow> 4 \<le> length rest"
    and "encode_frame_header buf op len msk = Some (buf', n)"
  shows "parse_frame_header (take n buf' @ rest) h =
    (n + (if msk then 4 else 0), h\<lparr>fin := True, opcode := op, masked := msk, payload_len := len\<rparr>)"
  using assms parse_header_bytes [OF assms(1,3)] encode_frame_header_writes [OF assms(2)] by auto

text \<open>The two encoders agree: a frame made by \<^verbatim>\<open>encode_frame\<close> is the header that
  \<^verbatim>\<open>encode_frame_header\<close> writes followed by the payload, and ten bytes of buffer are always
  enough, so that the arrays of fourteen bytes in the connection never overflow.\<close>

lemma encoders_agree:
  assumes "10 \<le> length buf"
  shows "\<exists>buf' n. encode_frame_header buf op (word_of_nat (length payload)) msk = Some (buf', n) \<and>
    n \<le> 10 \<and> encode_frame op payload msk = take n buf' @ payload"
  using encode_frame_header_writes [OF assms, of op "word_of_nat (length payload)" msk]
  by (simp add: encode_frame_header_bytes length_header_bytes)

text \<open>The header parser reads only the header: its size is one of the seven possible ones and
  never exceeds the data; once a prefix of the stream holds a complete header, more data does
  not change the result; and fourteen bytes are always a complete header.\<close>

lemma header_prefix_stable:
  "fst (parse_frame_header data h) \<le> length data \<and>
   fst (parse_frame_header data h) \<in> {0, 2, 4, 6, 8, 10, 14} \<and>
   (0 < fst (parse_frame_header data h) \<longrightarrow> parse_frame_header (data @ tail) h = parse_frame_header data h) \<and>
   (14 \<le> length data \<longrightarrow> 0 < fst (parse_frame_header data h))"
  using parse_frame_header_size [of data h] parse_frame_header_append [of data h tail]
    parse_frame_header_short [of data h] by fastforce

end
