(* ===== verification/Base64.thy ===== *)
theory Base64
  imports Ewss_Prelude
begin

text \<open>
  Class \<^verbatim>\<open>Base64\<close> of \<^verbatim>\<open>src/include/ewss.hpp\<close>. The loops run over an index, as in
  the source; characters are bytes.
\<close>

section \<open>Encoding\<close>

definition kAlphabet :: bytes where
  "kAlphabet = bytes_of ''ABCDEFGHIJKLMNOPQRSTUVWXYZabcdefghijklmnopqrstuvwxyz0123456789+/''"

definition pad_char :: u8 where
  "pad_char = 61"

function encode_loop :: "bytes \<Rightarrow> nat \<Rightarrow> bytes \<Rightarrow> bytes" where
  "encode_loop data i result =
     (if i < length data then
        let b0 = push_bit 16 (ucast (data ! i)) :: u32;
            b1 = (if i + 1 < length data then b0 OR push_bit 8 (ucast (data ! (i + 1))) else b0);
            b = (if i + 2 < length data then b1 OR ucast (data ! (i + 2)) else b1)
        in encode_loop data (i + 3)
             (result @
              [kAlphabet ! unat (drop_bit 18 b AND 0x3F),
               kAlphabet ! unat (drop_bit 12 b AND 0x3F),
               (if i + 1 < length data then kAlphabet ! unat (drop_bit 6 b AND 0x3F) else pad_char),
               (if i + 2 < length data then kAlphabet ! unat (b AND 0x3F) else pad_char)])
      else result)"
  by pat_completeness auto
termination
  by (relation "measure (\<lambda>(data, i, result). length data - i)") auto

definition encode :: "bytes \<Rightarrow> bytes" where
  "encode data = encode_loop data 0 []"

section \<open>Decoding\<close>

definition kTable :: "u8 list" where
  "kTable =
    [64, 64, 64, 64, 64, 64, 64, 64, 64, 64, 64, 64, 64, 64, 64, 64,
     64, 64, 64, 64, 64, 64, 64, 64, 64, 64, 64, 64, 64, 64, 64, 64,
     64, 64, 64, 64, 64, 64, 64, 64, 64, 64, 64, 62, 64, 64, 64, 63,
     52, 53, 54, 55, 56, 57, 58, 59, 60, 61, 64, 64, 64, 64, 64, 64,
     64,  0,  1,  2,  3,  4,  5,  6,  7,  8,  9, 10, 11, 12, 13, 14,
     15, 16, 17, 18, 19, 20, 21, 22, 23, 24, 25, 64, 64, 64, 64, 64,
     64, 26, 27, 28, 29, 30, 31, 32, 33, 34, 35, 36, 37, 38, 39, 40,
     41, 42, 43, 44, 45, 46, 47, 48, 49, 50, 51, 64, 64, 64, 64, 64,
     64, 64, 64, 64, 64, 64, 64, 64, 64, 64, 64, 64, 64, 64, 64, 64,
     64, 64, 64, 64, 64, 64, 64, 64, 64, 64, 64, 64, 64, 64, 64, 64,
     64, 64, 64, 64, 64, 64, 64, 64, 64, 64, 64, 64, 64, 64, 64, 64,
     64, 64, 64, 64, 64, 64, 64, 64, 64, 64, 64, 64, 64, 64, 64, 64,
     64, 64, 64, 64, 64, 64, 64, 64, 64, 64, 64, 64, 64, 64, 64, 64,
     64, 64, 64, 64, 64, 64, 64, 64, 64, 64, 64, 64, 64, 64, 64, 64,
     64, 64, 64, 64, 64, 64, 64, 64, 64, 64, 64, 64, 64, 64, 64, 64,
     64, 64, 64, 64, 64, 64, 64, 64, 64, 64, 64, 64, 64, 64, 64, 64]"

definition table_lookup :: "u8 \<Rightarrow> u32" where
  "table_lookup c = ucast (kTable ! unat c)"

text \<open>One iteration of the decoding loop: the bytes it appends.\<close>

definition decode_quad :: "u8 \<Rightarrow> u8 \<Rightarrow> u8 \<Rightarrow> u8 \<Rightarrow> bytes" where
  "decode_quad c0 c1 c2 c3 =
     (let b0 = push_bit 18 (table_lookup c0) OR push_bit 12 (table_lookup c1) in
      if c2 \<noteq> pad_char then
        let b1 = b0 OR push_bit 6 (table_lookup c2) in
        if c3 \<noteq> pad_char then
          let b = b1 OR table_lookup c3
          in [ucast (drop_bit 16 b AND 0xFF), ucast (drop_bit 8 b AND 0xFF), ucast (b AND 0xFF)]
        else [ucast (drop_bit 16 b1 AND 0xFF), ucast (drop_bit 8 b1 AND 0xFF)]
      else [ucast (drop_bit 16 b0 AND 0xFF)])"

function decode_loop :: "bytes \<Rightarrow> nat \<Rightarrow> bytes \<Rightarrow> bytes" where
  "decode_loop encoded i result =
     (if i < length encoded then
        decode_loop encoded (i + 4)
          (result @ decode_quad (encoded ! i) (encoded ! (i + 1)) (encoded ! (i + 2))
             (encoded ! (i + 3)))
      else result)"
  by pat_completeness auto
termination
  by (relation "measure (\<lambda>(encoded, i, result). length encoded - i)") auto

definition decode :: "bytes \<Rightarrow> bytes" where
  "decode encoded = (if length encoded mod 4 \<noteq> 0 then [] else decode_loop encoded 0 [])"

declare encode_loop.simps [simp del] decode_loop.simps [simp del]

section \<open>The loops as structural recursion\<close>

definition quad :: "u32 \<Rightarrow> bytes" where
  "quad b = [kAlphabet ! unat (drop_bit 18 b AND 0x3F), kAlphabet ! unat (drop_bit 12 b AND 0x3F),
             kAlphabet ! unat (drop_bit 6 b AND 0x3F), kAlphabet ! unat (b AND 0x3F)]"

fun encode_spec :: "bytes \<Rightarrow> bytes" where
  "encode_spec [] = []"
| "encode_spec [a] = take 2 (quad (push_bit 16 (ucast a))) @ [pad_char, pad_char]"
| "encode_spec [a, b] =
     take 3 (quad (push_bit 16 (ucast a) OR push_bit 8 (ucast b))) @ [pad_char]"
| "encode_spec (a # b # c # ds) =
     quad ((push_bit 16 (ucast a) OR push_bit 8 (ucast b)) OR ucast c) @ encode_spec ds"

fun decode_spec :: "bytes \<Rightarrow> bytes" where
  "decode_spec (c0 # c1 # c2 # c3 # cs) = decode_quad c0 c1 c2 c3 @ decode_spec cs"
| "decode_spec _ = []"

lemma drop_three:
  "i + 2 < length xs \<Longrightarrow>
   drop i xs = xs ! i # xs ! (i + 1) # xs ! (i + 2) # drop (i + 3) xs"
  by (simp add: Cons_nth_drop_Suc numeral_eq_Suc)

lemma drop_four:
  "i + 3 < length xs \<Longrightarrow>
   drop i xs = xs ! i # xs ! (i + 1) # xs ! (i + 2) # xs ! (i + 3) # drop (i + 4) xs"
  by (simp add: Cons_nth_drop_Suc numeral_eq_Suc)

lemma encode_loop_spec: "encode_loop data i result = result @ encode_spec (drop i data)"
proof (induction "length data - i" arbitrary: i result rule: less_induct)
  case less
  consider "length data \<le> i" | "length data = i + 1" | "length data = i + 2" | "i + 2 < length data"
    by linarith
  then show ?case
  proof cases
    case 1
    then show ?thesis by (simp add: encode_loop.simps [of data i])
  next
    case 2
    then have "drop i data = [data ! i]" by (simp add: Cons_nth_drop_Suc [symmetric])
    with 2 less show ?thesis by (simp add: encode_loop.simps [of data i] quad_def Let_def)
  next
    case 3
    then have "drop i data = [data ! i, data ! (i + 1)]"
      by (simp add: Cons_nth_drop_Suc [symmetric])
    with 3 less show ?thesis by (simp add: encode_loop.simps [of data i] quad_def Let_def)
  next
    case 4
    with less drop_three [OF 4] show ?thesis
      by (simp add: encode_loop.simps [of data i] quad_def Let_def)
  qed
qed

lemma decode_loop_spec:
  "(length encoded - i) mod 4 = 0 \<Longrightarrow>
   decode_loop encoded i result = result @ decode_spec (drop i encoded)"
proof (induction "length encoded - i" arbitrary: i result rule: less_induct)
  case less
  show ?case
  proof (cases "i < length encoded")
    case False
    then show ?thesis by (simp add: decode_loop.simps [of encoded i])
  next
    case True
    with less.prems have four: "i + 3 < length encoded" by presburger
    then have "(length encoded - (i + 4)) mod 4 = 0"
      using less.prems by presburger
    with less True drop_four [OF four] show ?thesis
      by (simp add: decode_loop.simps [of encoded i])
  qed
qed

lemma encode_eq: "encode data = encode_spec data"
  by (simp add: encode_def encode_loop_spec)

lemma decode_eq: "length cs mod 4 = 0 \<Longrightarrow> decode cs = decode_spec cs"
  by (simp add: decode_def decode_loop_spec)

section \<open>Length, alphabet and round trip\<close>

lemma length_encode_spec: "length (encode_spec data) = (length data + 2) div 3 * 4"
  by (induction data rule: encode_spec.induct) (simp_all add: quad_def, presburger)

lemma kAlphabet_table: "map (\<lambda>c. kTable ! unat c) kAlphabet = map word_of_nat [0..<64]"
  by code_simp

lemma kAlphabet_no_pad: "list_all (\<lambda>c. c \<noteq> pad_char) kAlphabet"
  by code_simp

lemma length_kAlphabet: "length kAlphabet = 64"
  by (simp add: kAlphabet_def)

lemma sextet_bound: "unat (w AND 0x3F) < 64" for w :: u32
proof -
  have "w AND 0x3F \<le> 0x3F" by (rule word_and_le1)
  then show ?thesis by (simp add: word_le_nat_alt)
qed

lemma alphabet_not_pad: "kAlphabet ! unat (w AND 0x3F) \<noteq> pad_char" for w :: u32
  using kAlphabet_no_pad sextet_bound [of w] by (simp add: list_all_length length_kAlphabet)

lemma table_lookup_alphabet: "table_lookup (kAlphabet ! unat (w AND 0x3F)) = w AND 0x3F" for w :: u32
proof -
  let ?k = "unat (w AND 0x3F)"
  have "kTable ! unat (kAlphabet ! ?k) = map (\<lambda>c. kTable ! unat c) kAlphabet ! ?k"
    using sextet_bound [of w] by (simp add: length_kAlphabet)
  also have "\<dots> = word_of_nat ?k"
    unfolding kAlphabet_table using sextet_bound [of w] by simp
  finally have "table_lookup (kAlphabet ! ?k) = ucast (word_of_nat ?k :: u8)"
    by (simp add: table_lookup_def)
  also have "\<dots> = w AND 0x3F"
    by (rule bit_word_eqI) (auto simp: bit_simps and_63)
  finally show ?thesis .
qed

text \<open>The three bytes of a group, read back from the four sextets written for it.\<close>

lemma sextets_join:
  "((push_bit 18 (drop_bit 18 b AND 0x3F) OR push_bit 12 (drop_bit 12 b AND 0x3F)) OR
    push_bit 6 (drop_bit 6 b AND 0x3F)) OR (b AND 0x3F) = take_bit 24 (b :: u32)"
proof (rule bit_word_eqI)
  fix n assume "n < LENGTH(32)"
  consider "n < 6" | "6 \<le> n" "n < 12" | "12 \<le> n" "n < 18" | "18 \<le> n" by linarith
  then show "bit (((push_bit 18 (drop_bit 18 b AND 0x3F) OR push_bit 12 (drop_bit 12 b AND 0x3F)) OR
      push_bit 6 (drop_bit 6 b AND 0x3F)) OR (b AND 0x3F)) n = bit (take_bit 24 b) n"
    by cases (auto simp: bit_simps and_63)
qed

lemma octets_split:
  fixes a b c :: u8
  defines "w \<equiv> (push_bit 16 (ucast a) OR push_bit 8 (ucast b)) OR ucast c :: u32"
  shows "ucast (drop_bit 16 (take_bit 24 w) AND 0xFF) = a"
    and "ucast (drop_bit 8 (take_bit 24 w) AND 0xFF) = b"
    and "ucast (take_bit 24 w AND 0xFF) = c"
  unfolding w_def
  by (rule bit_word_eqI; auto simp: bit_simps and_255 dest: bit_imp_le_length)+

lemma quad_nth:
  "quad w ! 0 = kAlphabet ! unat (drop_bit 18 w AND 0x3F)"
  "quad w ! 1 = kAlphabet ! unat (drop_bit 12 w AND 0x3F)"
  "quad w ! 2 = kAlphabet ! unat (drop_bit 6 w AND 0x3F)"
  "quad w ! 3 = kAlphabet ! unat (w AND 0x3F)"
  by (simp_all add: quad_def)

lemmas decode_quad_simps = decode_quad_def quad_nth table_lookup_alphabet alphabet_not_pad Let_def

text \<open>The groups of one, two and three bytes.\<close>

abbreviation group :: "u8 \<Rightarrow> u8 \<Rightarrow> u8 \<Rightarrow> u32" where
  "group a b c \<equiv> (push_bit 16 (ucast a) OR push_bit 8 (ucast b)) OR ucast c"

lemma group_low: "group a b 0 AND 0x3F = 0" "drop_bit 6 (group a 0 0) AND 0x3F = 0"
  unfolding and_63 by (rule bit_word_eqI; auto simp: bit_simps)+

lemma decode_quad_three:
  "decode_quad (quad (group a b c) ! 0) (quad (group a b c) ! 1) (quad (group a b c) ! 2)
     (quad (group a b c) ! 3) = [a, b, c]"
  by (simp only: decode_quad_simps if_True simp_thms sextets_join octets_split)

lemma decode_quad_two:
  "decode_quad (quad (group a b 0) ! 0) (quad (group a b 0) ! 1) (quad (group a b 0) ! 2) pad_char
   = [a, b]"
  using sextets_join [of "group a b 0", unfolded group_low or.right_neutral]
  by (simp only: decode_quad_simps if_True if_False simp_thms octets_split)

lemma decode_quad_one:
  "decode_quad (quad (group a 0 0) ! 0) (quad (group a 0 0) ! 1) pad_char pad_char = [a]"
  using sextets_join [of "group a 0 0", unfolded group_low push_bit_of_0 or.right_neutral]
  by (simp only: decode_quad_simps if_True if_False simp_thms octets_split)

lemma quad_list: "quad w = [quad w ! 0, quad w ! 1, quad w ! 2, quad w ! 3]"
  by (simp add: quad_def)

lemma decode_encode_spec: "decode_spec (encode_spec data) = data"
proof (induction data rule: encode_spec.induct)
  case (2 a)
  show ?case using decode_quad_one [of a]
    by (subst encode_spec.simps, subst quad_list) simp
next
  case (3 a b)
  show ?case using decode_quad_two [of a b]
    by (subst encode_spec.simps, subst quad_list) simp
next
  case (4 a b c ds)
  then show ?case using decode_quad_three [of a b c]
    by (subst encode_spec.simps, subst quad_list) simp
qed simp

lemma encode_alphabet:
  "c \<in> set (encode_spec data) \<Longrightarrow> c \<in> set kAlphabet \<or> c = pad_char"
  using sextet_bound
  by (induction data rule: encode_spec.induct)
     (auto simp: quad_def numeral_eq_Suc length_kAlphabet [unfolded numeral_eq_Suc])

section \<open>Properties\<close>

text \<open>C22: Base64 decoding inverts encoding, for every byte sequence.\<close>

theorem base64_round_trip: "decode (encode data) = data"
  by (subst decode_eq) (simp_all add: encode_eq length_encode_spec decode_encode_spec)

text \<open>The encoded text has four characters for every started group of three bytes, all of them
  from the alphabet or the padding character.\<close>

lemma base64_shape:
  "length (encode data) = (length data + 2) div 3 * 4 \<and> set (encode data) \<subseteq> set kAlphabet \<union> {pad_char}"
  using encode_alphabet [of _ data] by (auto simp: encode_eq length_encode_spec)

end
