(* ===== verification/Sha1.thy ===== *)
theory Sha1
  imports Ewss_Prelude
begin

text \<open>
  Class \<^verbatim>\<open>SHA1\<close> of \<^verbatim>\<open>src/include/ewss.hpp\<close>: the streaming hash with its 64-byte
  block buffer. Words are 32 bits wide, \<^verbatim>\<open>total_bytes_\<close> 64 bits.
\<close>

section \<open>State\<close>

record SHA1 =
  sha_h :: "u32 list"
  sha_buffer :: bytes
  sha_buf_pos :: nat
  sha_total_bytes :: u64

definition sha1_init :: SHA1 where
  "sha1_init = \<lparr>sha_h = [0x67452301, 0xEFCDAB89, 0x98BADCFE, 0x10325476, 0xC3D2E1F0],
     sha_buffer = replicate 64 0, sha_buf_pos = 0, sha_total_bytes = 0\<rparr>"

section \<open>The block function\<close>

definition rol :: "u32 \<Rightarrow> nat \<Rightarrow> u32" where
  "rol x n = push_bit n x OR drop_bit (32 - n) x"

definition load_word :: "bytes \<Rightarrow> nat \<Rightarrow> u32" where
  "load_word block i =
     push_bit 24 (ucast (block ! (i * 4))) OR push_bit 16 (ucast (block ! (i * 4 + 1))) OR
     push_bit 8 (ucast (block ! (i * 4 + 2))) OR ucast (block ! (i * 4 + 3))"

text \<open>The array \<open>w\<close> is filled from index 0 upwards, so that a growing list holds it.\<close>

definition schedule_step :: "u32 list \<Rightarrow> nat \<Rightarrow> u32 list" where
  "schedule_step w i =
     w @ [rol (w ! (i - 3) XOR w ! (i - 8) XOR w ! (i - 14) XOR w ! (i - 16)) 1]"

definition schedule :: "bytes \<Rightarrow> u32 list" where
  "schedule block = foldl schedule_step (map (load_word block) [0..<16]) [16..<80]"

type_synonym vars = "u32 \<times> u32 \<times> u32 \<times> u32 \<times> u32"

definition round_step :: "u32 list \<Rightarrow> vars \<Rightarrow> nat \<Rightarrow> vars" where
  "round_step w v i =
     (let (a, b, c, d, e) = v;
          (f, k) =
            (if i < 20 then ((b AND c) OR ((NOT b) AND d), 0x5A827999)
             else if i < 40 then (b XOR c XOR d, 0x6ED9EBA1)
             else if i < 60 then ((b AND c) OR (b AND d) OR (c AND d), 0x8F1BBCDC)
             else (b XOR c XOR d, 0xCA62C1D6));
          temp = rol a 5 + f + e + k + w ! i
      in (temp, a, rol b 30, c, d))"

definition process_block :: "bytes \<Rightarrow> SHA1 \<Rightarrow> SHA1" where
  "process_block block s =
     (let w = schedule block;
          (a, b, c, d, e) =
            foldl (round_step w) (sha_h s ! 0, sha_h s ! 1, sha_h s ! 2, sha_h s ! 3, sha_h s ! 4) [0..<80]
      in s\<lparr>sha_h := [sha_h s ! 0 + a, sha_h s ! 1 + b, sha_h s ! 2 + c, sha_h s ! 3 + d, sha_h s ! 4 + e]\<rparr>)"

section \<open>Streaming\<close>

text \<open>\<^verbatim>\<open>buffer_[buf_pos_++] = d\<close>\<close>

definition store_byte :: "u8 \<Rightarrow> SHA1 \<Rightarrow> SHA1" where
  "store_byte d s = s\<lparr>sha_buffer := (sha_buffer s)[sha_buf_pos s := d], sha_buf_pos := sha_buf_pos s + 1\<rparr>"

definition update_byte :: "SHA1 \<Rightarrow> u8 \<Rightarrow> SHA1" where
  "update_byte s d =
     (let s1 = store_byte d s;
          s2 = s1\<lparr>sha_total_bytes := sha_total_bytes s1 + 1\<rparr>
      in if sha_buf_pos s2 = 64 then (process_block (sha_buffer s2) s2)\<lparr>sha_buf_pos := 0\<rparr> else s2)"

definition update :: "bytes \<Rightarrow> SHA1 \<Rightarrow> SHA1" where
  "update data s = foldl update_byte s data"

text \<open>\<^verbatim>\<open>while (buf_pos_ < n) buffer_[buf_pos_++] = 0\<close>\<close>

function fill_zeros :: "nat \<Rightarrow> SHA1 \<Rightarrow> SHA1" where
  "fill_zeros n s = (if sha_buf_pos s < n then fill_zeros n (store_byte 0 s) else s)"
  by pat_completeness auto
termination
  by (relation "measure (\<lambda>(n, s). n - sha_buf_pos s)") (auto simp: store_byte_def)

declare fill_zeros.simps [simp del]

definition store_length_byte :: "u64 \<Rightarrow> bytes \<Rightarrow> nat \<Rightarrow> bytes" where
  "store_length_byte bits buf i =
     buf[56 + (7 - i) := ucast (drop_bit (i * 8) bits AND 0xFF)]"

definition digest :: "u32 list \<Rightarrow> bytes" where
  "digest hs = concat (map (\<lambda>i.
     [ucast (drop_bit 24 (hs ! i) AND 0xFF), ucast (drop_bit 16 (hs ! i) AND 0xFF),
      ucast (drop_bit 8 (hs ! i) AND 0xFF), ucast (hs ! i AND 0xFF)]) [0..<5])"

definition finalize_state :: "SHA1 \<Rightarrow> SHA1" where
  "finalize_state s0 =
     (let s1 = store_byte 0x80 s0;
          s2 = (if sha_buf_pos s1 > 56 then
                  let t = fill_zeros 64 s1 in (process_block (sha_buffer t) t)\<lparr>sha_buf_pos := 0\<rparr>
                else s1);
          s3 = fill_zeros 56 s2;
          total_bits = sha_total_bytes s3 * 8;
          s4 = s3\<lparr>sha_buffer := foldl (store_length_byte total_bits) (sha_buffer s3) (rev [0..<8])\<rparr>
      in process_block (sha_buffer s4) s4)"

definition finalize :: "SHA1 \<Rightarrow> bytes" where
  "finalize s = digest (sha_h (finalize_state s))"

definition compute :: "bytes \<Rightarrow> bytes" where
  "compute data = finalize (update data sha1_init)"

definition hex_digits :: bytes where
  "hex_digits = bytes_of ''0123456789abcdef''"

definition hex_digest :: "bytes \<Rightarrow> bytes" where
  "hex_digest input =
     concat (map (\<lambda>byte. [hex_digits ! unat (drop_bit 4 byte), hex_digits ! unat (byte AND 0x0F)])
       (compute input))"

section \<open>The hash as a fold over padded blocks\<close>

text \<open>
  The reference: the compression function folded over the 64-byte blocks of the padded message,
  as FIPS 180 defines SHA-1.
\<close>

definition compress :: "u32 list \<Rightarrow> bytes \<Rightarrow> u32 list" where
  "compress hs block = sha_h (process_block block (sha1_init\<lparr>sha_h := hs\<rparr>))"

function blocks :: "bytes \<Rightarrow> bytes list" where
  "blocks xs = (if length xs < 64 then [] else take 64 xs # blocks (drop 64 xs))"
  by pat_completeness auto
termination
  by (relation "measure length") auto

declare blocks.simps [simp del]

definition length_bytes :: "u64 \<Rightarrow> bytes" where
  "length_bytes bits = map (\<lambda>i. ucast (drop_bit ((7 - i) * 8) bits AND 0xFF)) [0..<8]"

definition padding :: "nat \<Rightarrow> bytes" where
  "padding n = [0x80] @ replicate ((119 - n mod 64) mod 64) 0 @ length_bytes (word_of_nat n * 8)"

definition sha1_spec :: "bytes \<Rightarrow> bytes" where
  "sha1_spec msg = digest (foldl compress (sha_h sha1_init) (blocks (msg @ padding (length msg))))"

lemma blocks_Nil [simp]: "blocks [] = []"
  by (simp add: blocks.simps)

lemma blocks_append: "64 dvd length xs \<Longrightarrow> blocks (xs @ ys) = blocks xs @ blocks ys"
proof (induction xs rule: blocks.induct)
  case (1 xs)
  show ?case
  proof (cases "length xs < 64")
    case True
    with 1 have "xs = []" by (auto dest: dvd_imp_le)
    then show ?thesis by simp
  next
    case False
    with 1 show ?thesis
      by (simp add: blocks.simps [of "xs @ ys"] blocks.simps [of xs] dvd_minus_self)
  qed
qed

lemma blocks_single: "length b = 64 \<Longrightarrow> blocks b = [b]"
  by (simp add: blocks.simps [of b])

lemma process_block_h: "sha_h (process_block b s) = compress (sha_h s) b"
  by (simp add: process_block_def compress_def Let_def split_beta)

lemma process_block_fields [simp]:
  "sha_buffer (process_block b s) = sha_buffer s" "sha_buf_pos (process_block b s) = sha_buf_pos s"
  "sha_total_bytes (process_block b s) = sha_total_bytes s"
  by (simp_all add: process_block_def Let_def split_beta)

text \<open>
  A state that has consumed whole blocks \<open>full\<close> and buffers \<open>rest\<close>.
\<close>

definition absorbed :: "SHA1 \<Rightarrow> bytes \<Rightarrow> bytes \<Rightarrow> bool" where
  "absorbed s full rest \<longleftrightarrow>
     sha_h s = foldl compress (sha_h sha1_init) (blocks full) \<and> 64 dvd length full \<and>
     length (sha_buffer s) = 64 \<and> sha_buf_pos s = length rest \<and> length rest \<le> 64 \<and>
     take (length rest) (sha_buffer s) = rest"

lemma absorbed_init: "absorbed sha1_init [] []"
  by (simp add: absorbed_def) (simp add: sha1_init_def)

lemma absorbed_store:
  assumes "absorbed s full rest" and "length rest < 64"
  shows "absorbed (store_byte d s) full (rest @ [d])"
  using assms
  by (auto simp: absorbed_def store_byte_def take_Suc_conv_app_nth nth_append)

lemma absorbed_process:
  assumes "absorbed s full rest" and "length rest = 64"
  shows "absorbed ((process_block (sha_buffer s) s)\<lparr>sha_buf_pos := 0\<rparr>) (full @ rest) []"
  using assms
  by (auto simp: absorbed_def process_block_h blocks_append blocks_single)

lemma absorbed_fill:
  assumes "absorbed s full rest" and "length rest \<le> n" and "n \<le> 64"
  shows "absorbed (fill_zeros n s) full (rest @ replicate (n - length rest) 0)"
  using assms
proof (induction "n - length rest" arbitrary: s rest)
  case 0
  then have "fill_zeros n s = s" by (subst fill_zeros.simps) (simp add: absorbed_def)
  with 0 show ?case by simp
next
  case (Suc k)
  then have lt: "length rest < n" by simp
  with Suc.prems have "absorbed (store_byte 0 s) full (rest @ [0])"
    by (intro absorbed_store) simp_all
  with Suc(1) [of "rest @ [0]" "store_byte 0 s"] Suc(2) Suc.prems lt
  have "absorbed (fill_zeros n (store_byte 0 s)) full
      ((rest @ [0]) @ replicate (n - length (rest @ [0])) 0)" by simp
  moreover have "(rest @ [0]) @ replicate (n - length (rest @ [0])) 0 =
      rest @ replicate (n - length rest) 0"
    using lt by (simp add: Suc_diff_Suc [symmetric])
  moreover have "fill_zeros n s = fill_zeros n (store_byte 0 s)"
    using lt Suc.prems(1) by (simp add: fill_zeros.simps [of n s] absorbed_def)
  ultimately show ?case by simp
qed

lemma fill_zeros_total [simp]: "sha_total_bytes (fill_zeros n s) = sha_total_bytes s"
proof (induction n s rule: fill_zeros.induct)
  case (1 n s)
  then show ?case by (simp add: fill_zeros.simps [of n s]) (simp add: store_byte_def)
qed

lemma store_length_append:
  assumes "length pre = 56" and "length t = 8"
  shows "foldl (store_length_byte bits) (pre @ t) (rev [0..<8]) = pre @ length_bytes bits"
proof -
  obtain a0 a1 a2 a3 a4 a5 a6 a7 where "t = [a0, a1, a2, a3, a4, a5, a6, a7]"
    using assms(2) by (auto simp: numeral_eq_Suc length_Suc_conv)
  with assms(1) show ?thesis
    by (simp add: store_length_byte_def length_bytes_def list_update_append upt_rec [of _ 8])
qed

lemma store_length_bytes:
  "length buf = 64 \<Longrightarrow>
   foldl (store_length_byte bits) buf (rev [0..<8]) = take 56 buf @ length_bytes bits"
  using store_length_append [of "take 56 buf" "drop 56 buf" bits] by simp

lemma length_length_bytes [simp]: "length (length_bytes bits) = 8"
  by (simp add: length_bytes_def)

section \<open>Streaming computes the reference\<close>

lemma update_byte_total: "sha_total_bytes (update_byte s d) = sha_total_bytes s + 1"
  by (simp add: update_byte_def Let_def store_byte_def)

lemma absorbed_update_byte:
  assumes "absorbed s full rest" and "length rest < 64"
  shows "\<exists>full' rest'. absorbed (update_byte s d) full' rest' \<and> length rest' < 64 \<and>
    full' @ rest' = full @ rest @ [d]"
proof -
  let ?s = "(store_byte d s)\<lparr>sha_total_bytes := sha_total_bytes (store_byte d s) + 1\<rparr>"
  from absorbed_store [OF assms] have st: "absorbed ?s full (rest @ [d])"
    by (simp add: absorbed_def)
  show ?thesis
  proof (cases "length (rest @ [d]) = 64")
    case True
    with absorbed_process [OF st True] st show ?thesis
      by (intro exI [of _ "full @ rest @ [d]"] exI [of _ "[]"])
         (simp add: update_byte_def Let_def absorbed_def)
  next
    case False
    with st assms(2) show ?thesis
      by (intro exI [of _ full] exI [of _ "rest @ [d]"])
         (simp add: update_byte_def Let_def absorbed_def)
  qed
qed

lemma absorbed_update:
  assumes "absorbed s full rest" and "length rest < 64"
  shows "\<exists>full' rest'. absorbed (update msg s) full' rest' \<and> length rest' < 64 \<and>
    full' @ rest' = full @ rest @ msg"
  using assms unfolding update_def
proof (induction msg arbitrary: s full rest)
  case (Cons d msg)
  from absorbed_update_byte [OF Cons.prems, of d] obtain full1 rest1 where
    1: "absorbed (update_byte s d) full1 rest1" "length rest1 < 64"
      "full1 @ rest1 = full @ rest @ [d]" by blast
  from Cons.IH [OF 1(1,2)] 1(3) show ?case by (metis append.assoc append_Cons append_Nil foldl_Cons)
qed auto

lemma update_total: "sha_total_bytes (update msg s) = sha_total_bytes s + word_of_nat (length msg)"
  unfolding update_def
  by (induction msg arbitrary: s) (simp_all add: update_byte_total)

lemma absorbed_finalize:
  assumes "absorbed s full rest" and "length rest < 64"
  shows "sha_h (finalize_state s) = foldl compress (sha_h sha1_init)
    (blocks (full @ rest @ [0x80] @ replicate ((119 - length rest) mod 64) 0 @
             length_bytes (sha_total_bytes s * 8)))"
proof -
  define s1 where "s1 = store_byte 0x80 s"
  define s2 where "s2 = (if sha_buf_pos s1 > 56 then
      let t = fill_zeros 64 s1 in (process_block (sha_buffer t) t)\<lparr>sha_buf_pos := 0\<rparr> else s1)"
  define s3 where "s3 = fill_zeros 56 s2"
  define s4 where "s4 = s3\<lparr>sha_buffer :=
      foldl (store_length_byte (sha_total_bytes s3 * 8)) (sha_buffer s3) (rev [0..<8])\<rparr>"
  have fin: "finalize_state s = process_block (sha_buffer s4) s4"
    unfolding finalize_state_def Let_def s4_def s3_def s2_def s1_def by simp
  have total: "sha_total_bytes s3 = sha_total_bytes s"
    by (simp add: s3_def s2_def s1_def Let_def) (simp add: store_byte_def)
  have a1: "absorbed s1 full (rest @ [0x80])"
    unfolding s1_def using assms by (rule absorbed_store)
  obtain full' rest' where a3: "absorbed s3 full' rest'" "length rest' = 56"
    and cat: "full' @ rest' = full @ rest @ [0x80] @ replicate ((119 - length rest) mod 64) 0"
  proof (cases "length rest < 56")
    case True
    then have "s2 = s1" using a1 by (simp add: s2_def absorbed_def)
    moreover from True have "(119 - length rest) mod 64 = 55 - length rest"
      by (simp add: mod_if)
    ultimately show ?thesis
      using that [of full "rest @ [0x80] @ replicate (55 - length rest) 0"] True
        absorbed_fill [OF a1, of 56] by (simp add: s3_def)
  next
    case False
    have "absorbed (fill_zeros 64 s1) full ((rest @ [0x80]) @ replicate (63 - length rest) 0)"
      using absorbed_fill [OF a1, of 64] assms(2) by simp
    from absorbed_process [OF this] assms(2) False a1
    have "absorbed s2 (full @ rest @ [0x80] @ replicate (63 - length rest) 0) []"
      by (simp add: s2_def Let_def absorbed_def)
    from absorbed_fill [OF this, of 56]
    have "absorbed s3 (full @ rest @ [0x80] @ replicate (63 - length rest) 0) (replicate 56 0)"
      by (simp add: s3_def)
    moreover have "(119 - length rest) mod 64 = (63 - length rest) + 56"
      using False assms(2) by simp
    ultimately show ?thesis
      using that [of "full @ rest @ [0x80] @ replicate (63 - length rest) 0" "replicate 56 0"]
      by (simp only: replicate_add append.assoc length_replicate)
  qed
  have buf: "sha_buffer s4 = rest' @ length_bytes (sha_total_bytes s * 8)"
    using a3 total by (auto simp: s4_def absorbed_def store_length_bytes)
  then have "sha_h (finalize_state s) =
      foldl compress (sha_h sha1_init) (blocks full' @ [rest' @ length_bytes (sha_total_bytes s * 8)])"
    using a3 by (simp add: fin process_block_h) (simp add: s4_def absorbed_def)
  also have "blocks full' @ [rest' @ length_bytes (sha_total_bytes s * 8)] =
      blocks (full' @ rest' @ length_bytes (sha_total_bytes s * 8))"
    using a3 by (simp add: absorbed_def blocks_append blocks_single)
  finally show ?thesis using cat by (metis append.assoc)
qed

lemma compute_spec: "compute msg = sha1_spec msg"
proof -
  obtain full rest where 1: "absorbed (update msg sha1_init) full rest" "length rest < 64"
    and msg: "full @ rest = msg"
    using absorbed_update [OF absorbed_init, of msg] by auto
  have "64 dvd length full" using 1(1) by (simp add: absorbed_def)
  then have "length msg mod 64 = length rest"
    using 1(2) msg by (auto simp: dvd_def mod_mult_self1 [symmetric])
  moreover have "sha_total_bytes (update msg sha1_init) = word_of_nat (length msg)"
    by (simp add: update_total) (simp add: sha1_init_def)
  ultimately show ?thesis
    using absorbed_finalize [OF 1] msg
    by (simp add: compute_def finalize_def sha1_spec_def padding_def) (metis append.assoc)
qed

lemma update_append: "update (xs @ ys) s = update ys (update xs s)"
  by (simp add: update_def)

lemma length_compute: "length (compute data) = 20"
  by (simp add: compute_def finalize_def digest_def upt_rec)

end
