(* ===== verification/Handshake.thy ===== *)
theory Handshake
  imports Base64 Sha1
begin

text \<open>
  The text side of the WebSocket upgrade in \<^verbatim>\<open>Connection::parse_handshake\<close> and
  \<^verbatim>\<open>Connection::generate_accept_key\<close> of \<^verbatim>\<open>src/include/ewss.hpp\<close>: searching the request,
  taking the client's key out of it, and the response. The buffers around it are in theory
  \<open>Connection\<close>.
\<close>

section \<open>Searching a string view\<close>

text \<open>\<^verbatim>\<open>std::string_view::find\<close>: the first position at or after \<open>from\<close> where \<open>pat\<close> occurs;
  \<^const>\<open>None\<close> is \<^verbatim>\<open>npos\<close>.\<close>

fun find_at :: "bytes \<Rightarrow> bytes \<Rightarrow> nat option" where
  "find_at pat [] = (if pat = [] then Some 0 else None)"
| "find_at pat (b # bs) =
     (if take (length pat) (b # bs) = pat then Some 0 else map_option Suc (find_at pat bs))"

definition sv_find :: "bytes \<Rightarrow> bytes \<Rightarrow> nat \<Rightarrow> nat option" where
  "sv_find pat data from =
     (if from \<le> length data then map_option (\<lambda>i. from + i) (find_at pat (drop from data)) else None)"

definition sv_substr :: "nat \<Rightarrow> nat \<Rightarrow> bytes \<Rightarrow> bytes" where
  "sv_substr pos n data = take n (drop pos data)"

text \<open>The loop that removes trailing blanks with \<^verbatim>\<open>remove_suffix(1)\<close>.\<close>

function trim_back :: "bytes \<Rightarrow> bytes" where
  "trim_back ws_key =
     (if ws_key \<noteq> [] \<and> (last ws_key = 32 \<or> last ws_key = 9) then trim_back (butlast ws_key) else ws_key)"
  by auto
termination by (relation "measure length") auto

declare trim_back.simps [simp del]

section \<open>The client's key\<close>

definition crlf :: bytes where
  "crlf = [13, 10]"

definition kKeyHeader :: bytes where
  "kKeyHeader = bytes_of ''Sec-WebSocket-Key: ''"

definition kKeyHeaderLower :: bytes where
  "kKeyHeaderLower = bytes_of ''sec-websocket-key: ''"

text \<open>
  Position of the key header: the canonical spelling, or else the lower-case one.
\<close>

definition find_key_header :: "bytes \<Rightarrow> nat option" where
  "find_key_header data =
     (case sv_find kKeyHeader data 0 of None \<Rightarrow> sv_find kKeyHeaderLower data 0 | Some p \<Rightarrow> Some p)"

section \<open>The response\<close>

definition kMagic :: bytes where
  "kMagic = bytes_of ''258EAFA5-E914-47DA-95CA-C5AB0DC85B11''"

definition generate_accept_key :: "bytes \<Rightarrow> bytes" where
  "generate_accept_key client_key = encode (compute (client_key @ kMagic))"

text \<open>
  The text \<^verbatim>\<open>snprintf\<close> produces: \<^verbatim>\<open>%s\<close> copies its argument up to the first NUL.
\<close>

definition response_text :: "bytes \<Rightarrow> bytes" where
  "response_text accept_key =
     bytes_of ''HTTP/1.1 101 Switching Protocols'' @ crlf @
     bytes_of ''Upgrade: websocket'' @ crlf @
     bytes_of ''Connection: Upgrade'' @ crlf @
     bytes_of ''Sec-WebSocket-Accept: '' @ takeWhile (\<lambda>b. b \<noteq> 0) accept_key @ crlf @ crlf"

section \<open>Lemmas on searching\<close>

lemma find_at_sound:
  "find_at pat bs = Some i \<Longrightarrow> i + length pat \<le> length bs \<and> take (length pat) (drop i bs) = pat"
proof (induction bs arbitrary: i)
  case (Cons b bs)
  show ?case
  proof (cases "take (length pat) (b # bs) = pat")
    case True
    then have "length pat \<le> length (b # bs)" by (metis length_take min.absorb_iff2 min.commute)
    with True Cons.prems show ?thesis by simp
  qed (use Cons in auto)
qed (simp split: if_splits)

lemma find_at_first:
  "find_at pat bs = Some i \<Longrightarrow> j < i \<Longrightarrow> take (length pat) (drop j bs) \<noteq> pat"
proof (induction bs arbitrary: i j)
  case (Cons b bs)
  then show ?case by (cases j) (auto split: if_splits)
qed (simp split: if_splits)

lemma find_at_complete:
  "take (length pat) (drop j bs) = pat \<Longrightarrow> j \<le> length bs \<Longrightarrow> \<exists>i. find_at pat bs = Some i \<and> i \<le> j"
proof (induction bs arbitrary: j)
  case (Cons b bs)
  then show ?case by (cases j) (auto, fastforce)
qed auto

lemma sv_find_sound:
  assumes "sv_find pat data from = Some i"
  shows "from \<le> i" "i + length pat \<le> length data" "take (length pat) (drop i data) = pat"
proof -
  from assms obtain k where k: "find_at pat (drop from data) = Some k" "i = from + k" "from \<le> length data"
    by (auto simp: sv_find_def split: if_splits)
  from find_at_sound [OF k(1)] k(2,3)
  show "from \<le> i" "i + length pat \<le> length data" "take (length pat) (drop i data) = pat"
    by (auto simp: add.commute)
qed

lemma trim_back_spec:
  "trim_back bs = rev (dropWhile (\<lambda>b. b = 32 \<or> b = 9) (rev bs))"
proof (induction bs rule: trim_back.induct)
  case (1 bs)
  show ?case
  proof (cases bs rule: rev_cases)
    case Nil
    then show ?thesis by (simp add: trim_back.simps)
  next
    case (snoc ys y)
    with 1 show ?thesis by (subst trim_back.simps) auto
  qed
qed

section \<open>The response always fits\<close>

lemma length_accept_key: "length (generate_accept_key k) = 28"
  by (simp add: generate_accept_key_def encode_eq length_encode_spec length_compute)

lemma alphabet_no_nul: "0 \<notin> set kAlphabet \<and> pad_char \<noteq> 0"
  by code_simp

lemma accept_key_no_nul: "0 \<notin> set (generate_accept_key k)"
  using encode_alphabet [of 0 "compute (k @ kMagic)"] alphabet_no_nul
  by (auto simp: generate_accept_key_def encode_eq)

lemma accept_key_c_str:
  "takeWhile (\<lambda>b. b \<noteq> 0) (generate_accept_key k) = generate_accept_key k"
  using accept_key_no_nul [of k] by (subst takeWhile_eq_all_conv) blast

lemma length_response: "length (response_text (generate_accept_key k)) = 129"
  by (simp add: response_text_def crlf_def length_accept_key accept_key_c_str)

end
