(* ===== verification/Connection.thy ===== *)
theory Connection
  imports Ring_Buffer Ws_Frame Handshake Vocabulary
begin

text \<open>
  Class \<^verbatim>\<open>Connection\<close> of \<^verbatim>\<open>src/include/ewss.hpp\<close> with its state handlers and state tables.
  A state is a pair of the connection and the rest of the world; the type of the world is a
  parameter, as are the operating system, the socket library and the user's callbacks, which are
  the fields of \<open>Env\<close>. A handler's value is \<^const>\<open>None\<close> when it does not return and
  \<open>Some (Inl f)\<close> when it leaves the defined behaviour of C++.
\<close>

section \<open>State\<close>

datatype ConnectionState = kHandshaking | kOpen | kClosing | kClosed

text \<open>
  The member \<^verbatim>\<open>ops_\<close> points to one of four constant tables, here named by their state.
  Time points are nanoseconds of the steady clock.
\<close>

record Connection =
  conn_id :: u64
  conn_socket :: int
  rx_buffer :: "u8 RingBuffer"
  tx_buffer :: "u8 RingBuffer"
  conn_ops :: ConnectionState
  handshake_completed :: bool
  sec_websocket_key :: bytes
  last_error_code :: ErrorCode
  write_paused :: bool
  created_at :: int
  closing_at :: int
  last_activity :: int

definition kRxBufferSize :: nat where "kRxBufferSize = 4096"
definition kTxBufferSize :: nat where "kTxBufferSize = 8192"
definition kTempReadSize :: nat where "kTempReadSize = 512"
definition kHandshakeTimeout :: u64 where "kHandshakeTimeout = 5000"
definition kCloseTimeout :: u64 where "kCloseTimeout = 5000"
definition kTxHighWatermark :: nat where "kTxHighWatermark = kTxBufferSize * 3 div 4"
definition kTxLowWatermark :: nat where "kTxLowWatermark = kTxBufferSize div 4"

type_synonym 'w st = "Connection \<times> 'w"

section \<open>The environment\<close>

text \<open>
  Results of the system calls: \<^verbatim>\<open>readv\<close> delivers bytes (none at the end of the stream)
  or fails with an \<^verbatim>\<open>errno\<close>; \<^verbatim>\<open>write\<close> and \<^verbatim>\<open>writev\<close> accept a number of bytes or
  fail. On Linux \<^verbatim>\<open>EAGAIN\<close> and \<^verbatim>\<open>EWOULDBLOCK\<close> are the same number.
\<close>

datatype ReadResult = RdOk bytes | RdErr int
datatype WriteResult = WrOk nat | WrErr int

definition EAGAIN :: int where "EAGAIN = 11"
definition EWOULDBLOCK :: int where "EWOULDBLOCK = 11"

text \<open>
  \<open>env_readv\<close> gets the lengths of the areas to fill, \<open>env_writev\<close> and \<open>env_write\<close> the bytes on
  offer. An unset \<^verbatim>\<open>std::function\<close> is \<^const>\<open>None\<close>.
\<close>

record 'w Env =
  env_now :: "'w \<Rightarrow> int \<times> 'w"
  env_readv :: "int \<Rightarrow> nat list \<Rightarrow> 'w \<Rightarrow> ReadResult \<times> 'w"
  env_writev :: "int \<Rightarrow> bytes \<Rightarrow> 'w \<Rightarrow> WriteResult \<times> 'w"
  env_write :: "int \<Rightarrow> bytes \<Rightarrow> 'w \<Rightarrow> WriteResult \<times> 'w"
  env_set_non_blocking :: "int \<Rightarrow> 'w \<Rightarrow> 'w"
  env_close :: "int \<Rightarrow> 'w \<Rightarrow> int \<times> 'w"
  env_is_open :: "int \<Rightarrow> bool"
  on_open :: "('w st \<Rightarrow> 'w st) option"
  on_message :: "(bytes \<Rightarrow> 'w st \<Rightarrow> 'w st) option"
  on_close :: "(bool \<Rightarrow> 'w st \<Rightarrow> 'w st) option"
  on_error :: "('w st \<Rightarrow> 'w st) option"
  on_backpressure :: "('w st \<Rightarrow> 'w st) option"
  on_drain :: "('w st \<Rightarrow> 'w st) option"

datatype fault = OutOfBounds

type_synonym 'a outcome = "(fault + 'a) option"

text \<open>Calling a \<^verbatim>\<open>std::function\<close> member guarded by a test that it is set.\<close>

definition call_opt :: "('w st \<Rightarrow> 'w st) option \<Rightarrow> 'w st \<Rightarrow> 'w st" where
  "call_opt f st = (case f of None \<Rightarrow> st | Some g \<Rightarrow> g st)"

section \<open>Construction, queries and timeouts\<close>

text \<open>
  Both constructors; the argument and result \<open>nid\<close> is the static counter of
  \<^verbatim>\<open>ewss_next_conn_id\<close>. The clock is read for \<^verbatim>\<open>created_at_\<close> and again for
  \<^verbatim>\<open>last_activity_\<close>; a default time point is the epoch.
\<close>

definition Connection_ctor :: "'w Env \<Rightarrow> int \<Rightarrow> u64 \<Rightarrow> 'w \<Rightarrow> u64 \<times> 'w st" where
  "Connection_ctor e sock nid w =
     (let (t1, w1) = env_now e w;
          (t2, w2) = env_now e w1;
          c = \<lparr>conn_id = nid, conn_socket = sock,
               rx_buffer = rb_init kRxBufferSize 0, tx_buffer = rb_init kTxBufferSize 0,
               conn_ops = kHandshaking, handshake_completed = False, sec_websocket_key = [],
               last_error_code = kOk, write_paused = False,
               created_at = t1, closing_at = 0, last_activity = t2\<rparr>
      in (nid + 1, c, env_set_non_blocking e sock w2))"

definition close_socket :: "'w Env \<Rightarrow> 'w st \<Rightarrow> 'w st" where
  "close_socket e st =
     (case st of (c, w) \<Rightarrow> let (s, w') = env_close e (conn_socket c) w in (c\<lparr>conn_socket := s\<rparr>, w'))"

definition Connection_dtor :: "'w Env \<Rightarrow> 'w st \<Rightarrow> 'w st" where
  "Connection_dtor e st = (if env_is_open e (conn_socket (fst st)) then close_socket e st else st)"

definition get_state :: "Connection \<Rightarrow> ConnectionState" where
  "get_state c = conn_ops c"

definition is_closed :: "'w Env \<Rightarrow> Connection \<Rightarrow> bool" where
  "is_closed e c \<longleftrightarrow> \<not> env_is_open e (conn_socket c) \<or> get_state c = kClosed"

definition has_data_to_send :: "Connection \<Rightarrow> bool" where
  "has_data_to_send c \<longleftrightarrow> \<not> rb_empty (tx_buffer c)"

definition tx_buffer_usage :: "Connection \<Rightarrow> nat" where
  "tx_buffer_usage c = rb_size (tx_buffer c)"

text \<open>
  \<^verbatim>\<open>duration_cast<milliseconds>\<close> divides rounding to zero; the count is then cast to an
  unsigned 64-bit integer.
\<close>

definition elapsed_ms :: "int \<Rightarrow> int \<Rightarrow> u64" where
  "elapsed_ms t0 t1 =
     (let d = t1 - t0 in word_of_int (if d < 0 then - (- d div 1000000) else d div 1000000))"

definition is_handshake_timed_out :: "'w Env \<Rightarrow> 'w st \<Rightarrow> bool \<times> 'w" where
  "is_handshake_timed_out e st =
     (case st of (c, w) \<Rightarrow>
        if get_state c \<noteq> kHandshaking then (False, w)
        else let (t, w') = env_now e w in (elapsed_ms (created_at c) t > kHandshakeTimeout, w'))"

definition is_close_timed_out :: "'w Env \<Rightarrow> 'w st \<Rightarrow> bool \<times> 'w" where
  "is_close_timed_out e st =
     (case st of (c, w) \<Rightarrow>
        if get_state c \<noteq> kClosing then (False, w)
        else let (t, w') = env_now e w in (elapsed_ms (closing_at c) t > kCloseTimeout, w'))"

definition touch_activity :: "'w Env \<Rightarrow> 'w st \<Rightarrow> 'w st" where
  "touch_activity e st =
     (case st of (c, w) \<Rightarrow> let (t, w') = env_now e w in (c\<lparr>last_activity := t\<rparr>, w'))"

definition idle_ms :: "'w Env \<Rightarrow> 'w st \<Rightarrow> u64 \<times> 'w" where
  "idle_ms e st =
     (case st of (c, w) \<Rightarrow> let (t, w') = env_now e w in (elapsed_ms (last_activity c) t, w'))"

section \<open>Writing frames\<close>

text \<open>
  \<^verbatim>\<open>header_buf\<close> is an uninitialised array of 14 bytes; the encoder overwrites every byte
  that is pushed, so the contents chosen here do not matter.
\<close>

definition header_buf :: bytes where
  "header_buf = replicate 14 0"

definition write_frame :: "bytes \<Rightarrow> OpCode \<Rightarrow> Connection \<Rightarrow> Connection" where
  "write_frame payload op c =
     (case encode_frame_header header_buf op (word_of_nat (length payload)) False of
        None \<Rightarrow> c
      | Some (buf, header_len) \<Rightarrow>
          let (pushed, tx) = rb_push (take header_len buf) (tx_buffer c) in
          if \<not> pushed then c
          else if payload \<noteq> [] then c\<lparr>tx_buffer := snd (rb_push payload tx)\<rparr>
          else c\<lparr>tx_buffer := tx\<rparr>)"

definition close_payload :: "u16 \<Rightarrow> bytes" where
  "close_payload code = [ucast (drop_bit 8 code AND 0xFF), ucast (code AND 0xFF)]"

definition write_close_frame :: "u16 \<Rightarrow> Connection \<Rightarrow> Connection" where
  "write_close_frame code c =
     (case encode_frame_header header_buf kClose 2 False of
        None \<Rightarrow> c
      | Some (buf, header_len) \<Rightarrow>
          let (pushed, tx) = rb_push (take header_len buf) (tx_buffer c) in
          if \<not> pushed then c
          else c\<lparr>tx_buffer := snd (rb_push (close_payload code) tx)\<rparr>)"

definition check_high_watermark :: "'w Env \<Rightarrow> 'w st \<Rightarrow> 'w st" where
  "check_high_watermark e st =
     (case st of (c, w) \<Rightarrow>
        if \<not> write_paused c \<and> rb_size (tx_buffer c) > kTxHighWatermark
        then call_opt (on_backpressure e) (c\<lparr>write_paused := True\<rparr>, w) else (c, w))"

definition check_low_watermark :: "'w Env \<Rightarrow> 'w st \<Rightarrow> 'w st" where
  "check_low_watermark e st =
     (case st of (c, w) \<Rightarrow>
        if write_paused c \<and> rb_size (tx_buffer c) < kTxLowWatermark
        then call_opt (on_drain e) (c\<lparr>write_paused := False\<rparr>, w) else (c, w))"

section \<open>Transitions and the user's interface\<close>

fun transition_to_state :: "'w Env \<Rightarrow> ConnectionState \<Rightarrow> 'w st \<Rightarrow> 'w st" where
  "transition_to_state e kHandshaking (c, w) = (c\<lparr>conn_ops := kHandshaking\<rparr>, w)"
| "transition_to_state e kOpen (c, w) = call_opt (on_open e) (c\<lparr>conn_ops := kOpen\<rparr>, w)"
| "transition_to_state e kClosing (c, w) =
     (let (t, w') = env_now e w in (c\<lparr>conn_ops := kClosing, closing_at := t\<rparr>, w'))"
| "transition_to_state e kClosed (c, w) =
     call_opt (map_option (\<lambda>f. f True) (on_close e)) (c\<lparr>conn_ops := kClosed\<rparr>, w)"

definition send_impl :: "'w Env \<Rightarrow> bytes \<Rightarrow> bool \<Rightarrow> 'w st \<Rightarrow> 'w st" where
  "send_impl e payload binary st =
     (case st of (c, w) \<Rightarrow>
        if get_state c \<noteq> kOpen then (c, w)
        else let op = (if binary then kBinary else kText)
             in check_high_watermark e (write_frame payload op c, w))"

definition conn_send :: "'w Env \<Rightarrow> bytes \<Rightarrow> 'w st \<Rightarrow> 'w st" where
  "conn_send e payload st = send_impl e payload False st"

definition conn_send_binary :: "'w Env \<Rightarrow> bytes \<Rightarrow> 'w st \<Rightarrow> 'w st" where
  "conn_send_binary e payload st = send_impl e payload True st"

definition conn_close :: "'w Env \<Rightarrow> u16 \<Rightarrow> 'w st \<Rightarrow> 'w st" where
  "conn_close e code st =
     (case st of (c, w) \<Rightarrow>
        if get_state c = kClosed then (c, w)
        else if get_state c = kOpen
        then transition_to_state e kClosing (write_close_frame code c, w)
        else close_socket e (transition_to_state e kClosed (c, w)))"

section \<open>The handshake\<close>

definition parse_handshake :: "Connection \<Rightarrow> result \<times> Connection" where
  "parse_handshake c =
     (let data = rb_peek 1024 (rx_buffer c);
          failed = (ev_error kHandshakeFailed, c\<lparr>last_error_code := kHandshakeFailed\<rparr>)
      in if length data = 0 then (ev_error kHandshakeFailed, c)
      else case sv_find (crlf @ crlf) data 0 of
        None \<Rightarrow> (ev_error kHandshakeFailed, c)
      | Some end_pos \<Rightarrow>
        let handshake_size = end_pos + 4 in
        if sv_substr 0 4 data \<noteq> bytes_of ''GET '' then failed
        else case find_key_header data of
          None \<Rightarrow> failed
        | Some key_pos \<Rightarrow>
          let value_start = key_pos + length kKeyHeader in
          case sv_find crlf data value_start of
            None \<Rightarrow> failed
          | Some value_end \<Rightarrow>
            let ws_key = trim_back (sv_substr value_start (value_end - value_start) data) in
            if ws_key = [] then failed
            else let
              c1 = c\<lparr>rx_buffer := rb_advance handshake_size (rx_buffer c)\<rparr>;
              response = response_text (generate_accept_key ws_key)
            in if length response \<le> 0 \<or> length response \<ge> 256
            then (ev_error kHandshakeFailed, c1\<lparr>last_error_code := kHandshakeFailed\<rparr>)
            else let (pushed, tx) = rb_push response (tx_buffer c1) in
              if \<not> pushed then (ev_error kBufferFull, c1\<lparr>last_error_code := kBufferFull\<rparr>)
              else (ok, c1\<lparr>tx_buffer := tx, handshake_completed := True,
                           sec_websocket_key := [], last_error_code := kOk\<rparr>))"

section \<open>Frames\<close>

text \<open>\<^verbatim>\<open>unmask_payload\<close>: the loop index is kept in the second argument.\<close>

fun unmask_loop :: "bytes \<Rightarrow> nat \<Rightarrow> bytes \<Rightarrow> bytes" where
  "unmask_loop [] i mask_key = []"
| "unmask_loop (b # bs) i mask_key = (b XOR mask_key ! (i mod 4)) # unmask_loop bs (i + 1) mask_key"

definition unmask_payload :: "bytes \<Rightarrow> bytes \<Rightarrow> bytes" where
  "unmask_payload payload mask_key = unmask_loop payload 0 mask_key"

text \<open>An uninitialised \<^verbatim>\<open>FrameHeader\<close>; no field is read before the parser has set it.\<close>

definition frame_header0 :: FrameHeader where
  "frame_header0 = \<lparr>fin = False, opcode = kContinuation, masked = False, payload_len = 0\<rparr>"

text \<open>
  One pass through the body of the loop of \<^verbatim>\<open>parse_frames\<close>: \<open>Break\<close>, \<open>Return\<close>, the next
  pass, or a fault. The sum of header and payload size is computed in 64 bits. A frame whose
  payload range passes the end of \<^verbatim>\<open>temp\<close> is a fault when the range is used: unmasked in
  place, or made the view that \<^verbatim>\<open>on_message\<close> or \<^verbatim>\<open>write_frame\<close> gets.
\<close>

definition consume_rx :: "nat \<Rightarrow> 'w st \<Rightarrow> 'w st" where
  "consume_rx n st = (fst st\<lparr>rx_buffer := rb_advance n (rx_buffer (fst st))\<rparr>, snd st)"

datatype 'w frame_step = Break | Return "'w st" | Next "'w st" | Fault

definition parse_frames_body :: "'w Env \<Rightarrow> 'w st \<Rightarrow> 'w frame_step" where
  "parse_frames_body e st =
     (case st of (c, w) \<Rightarrow>
      let data = rb_peek 4096 (rx_buffer c); len = length data in
      if len = 0 then Break
      else let (header_size, header) = parse_frame_header data frame_header0 in
      if header_size = 0 then Break
      else let total_frame_size = word_of_nat header_size + payload_len header in
      if word_of_nat len < total_frame_size then Break
      else let
        in_temp = (header_size + unat (payload_len header) \<le> 4096);
        raw = take (unat (payload_len header)) (drop header_size data);
        payload = (if masked header
                   then unmask_payload raw (take 4 (drop (header_size - 4) data)) else raw);
        advance = (\<lambda>st'. Next (consume_rx (unat total_frame_size) st'))
      in if masked header \<and> \<not> in_temp then Fault
      else if opcode header = kText \<or> opcode header = kBinary then
        (case on_message e of
           None \<Rightarrow> advance (c, w)
         | Some f \<Rightarrow> if in_temp then advance (f payload (c, w)) else Fault)
      else if opcode header = kClose then
        Return (close_socket e (transition_to_state e kClosed
          (call_opt (map_option (\<lambda>f. f False) (on_close e)) (c, w))))
      else if opcode header = kPing then
        (if in_temp then advance (write_frame payload kPong c, w) else Fault)
      else advance (c, w))"

partial_function (option) parse_frames :: "'w Env \<Rightarrow> 'w st \<Rightarrow> 'w st outcome" where
  "parse_frames e st =
     (case parse_frames_body e st of
        Break \<Rightarrow> Some (Inr st)
      | Return st' \<Rightarrow> Some (Inr st')
      | Next st' \<Rightarrow> parse_frames e st'
      | Fault \<Rightarrow> Some (Inl OutOfBounds))"

section \<open>State handlers and tables\<close>

record 'w StateOps =
  ops_state :: ConnectionState
  ops_on_data :: "'w Env \<Rightarrow> 'w st \<Rightarrow> (result \<times> 'w st) outcome"
  ops_on_send :: "'w Env \<Rightarrow> bytes \<Rightarrow> 'w st \<Rightarrow> result \<times> 'w st"
  ops_on_close :: "'w Env \<Rightarrow> u16 \<Rightarrow> 'w st \<Rightarrow> result \<times> 'w st"

definition handshake_on_data :: "'w Env \<Rightarrow> 'w st \<Rightarrow> (result \<times> 'w st) outcome" where
  "handshake_on_data e st =
     (case st of (c, w) \<Rightarrow>
        let (res, c') = parse_handshake c in
        if ev_has_value res then Some (Inr (ok, transition_to_state e kOpen (c', w)))
        else Some (Inr (res, (c', w))))"

definition handshake_on_send :: "'w Env \<Rightarrow> bytes \<Rightarrow> 'w st \<Rightarrow> result \<times> 'w st" where
  "handshake_on_send e payload st = (ev_error kInvalidState, st)"

definition handshake_on_close :: "'w Env \<Rightarrow> u16 \<Rightarrow> 'w st \<Rightarrow> result \<times> 'w st" where
  "handshake_on_close e code st = (ok, transition_to_state e kClosed (close_socket e st))"

definition open_on_data :: "'w Env \<Rightarrow> 'w st \<Rightarrow> (result \<times> 'w st) outcome" where
  "open_on_data e st =
     (case parse_frames e st of
        None \<Rightarrow> None | Some (Inl f) \<Rightarrow> Some (Inl f) | Some (Inr st') \<Rightarrow> Some (Inr (ok, st')))"

definition open_on_send :: "'w Env \<Rightarrow> bytes \<Rightarrow> 'w st \<Rightarrow> result \<times> 'w st" where
  "open_on_send e payload st = (ok, (write_frame payload kText (fst st), snd st))"

definition open_on_close :: "'w Env \<Rightarrow> u16 \<Rightarrow> 'w st \<Rightarrow> result \<times> 'w st" where
  "open_on_close e code st =
     (ok, transition_to_state e kClosing (write_close_frame code (fst st), snd st))"

definition closing_on_data :: "'w Env \<Rightarrow> 'w st \<Rightarrow> (result \<times> 'w st) outcome" where
  "closing_on_data e st =
     (case st of (c, w) \<Rightarrow>
        let data = rb_peek 1024 (rx_buffer c) in
        if length data > 0 then
          let (header_size, header) = parse_frame_header data frame_header0 in
          if header_size > 0 \<and> opcode header = kClose
          then Some (Inr (ok, close_socket e (transition_to_state e kClosed (c, w))))
          else Some (Inr (ok, (c, w)))
        else Some (Inr (ok, (c, w))))"

definition closing_on_send :: "'w Env \<Rightarrow> bytes \<Rightarrow> 'w st \<Rightarrow> result \<times> 'w st" where
  "closing_on_send e payload st = (ev_error kInvalidState, st)"

definition closing_on_close :: "'w Env \<Rightarrow> u16 \<Rightarrow> 'w st \<Rightarrow> result \<times> 'w st" where
  "closing_on_close e code st = (ok, st)"

definition closed_on_data :: "'w Env \<Rightarrow> 'w st \<Rightarrow> (result \<times> 'w st) outcome" where
  "closed_on_data e st = Some (Inr (ev_error kConnectionClosed, st))"

definition closed_on_send :: "'w Env \<Rightarrow> bytes \<Rightarrow> 'w st \<Rightarrow> result \<times> 'w st" where
  "closed_on_send e payload st = (ev_error kConnectionClosed, st)"

definition closed_on_close :: "'w Env \<Rightarrow> u16 \<Rightarrow> 'w st \<Rightarrow> result \<times> 'w st" where
  "closed_on_close e code st = (ev_error kConnectionClosed, st)"

definition kHandshakeOps :: "'w StateOps" where
  "kHandshakeOps = \<lparr>ops_state = kHandshaking, ops_on_data = handshake_on_data,
     ops_on_send = handshake_on_send, ops_on_close = handshake_on_close\<rparr>"

definition kOpenOps :: "'w StateOps" where
  "kOpenOps = \<lparr>ops_state = kOpen, ops_on_data = open_on_data,
     ops_on_send = open_on_send, ops_on_close = open_on_close\<rparr>"

definition kClosingOps :: "'w StateOps" where
  "kClosingOps = \<lparr>ops_state = kClosing, ops_on_data = closing_on_data,
     ops_on_send = closing_on_send, ops_on_close = closing_on_close\<rparr>"

definition kClosedOps :: "'w StateOps" where
  "kClosedOps = \<lparr>ops_state = kClosed, ops_on_data = closed_on_data,
     ops_on_send = closed_on_send, ops_on_close = closed_on_close\<rparr>"

fun ops_table :: "ConnectionState \<Rightarrow> 'w StateOps" where
  "ops_table kHandshaking = kHandshakeOps"
| "ops_table kOpen = kOpenOps"
| "ops_table kClosing = kClosingOps"
| "ops_table kClosed = kClosedOps"

section \<open>Reactor I/O\<close>

definition set_error :: "ErrorCode \<Rightarrow> 'w st \<Rightarrow> 'w st" where
  "set_error code st = (fst st\<lparr>last_error_code := code\<rparr>, snd st)"

definition handle_read :: "'w Env \<Rightarrow> 'w st \<Rightarrow> (result \<times> 'w st) outcome" where
  "handle_read e st =
     (case st of (c, w) \<Rightarrow>
        let iov = rb_fill_iovec_write 2 (rx_buffer c) in
        if length iov = 0 then Some (Inr (ev_error kBufferFull, set_error kBufferFull (c, w)))
        else case env_readv e (conn_socket c) (map iov_len iov) w of
          (RdOk bs, w1) \<Rightarrow>
            if bs \<noteq> [] then
              let st1 = touch_activity e (c\<lparr>rx_buffer := rb_receive bs (rx_buffer c)\<rparr>, w1)
              in (case ops_on_data (ops_table (conn_ops (fst st1))) e st1 of
                    None \<Rightarrow> None
                  | Some (Inl f) \<Rightarrow> Some (Inl f)
                  | Some (Inr (res, st2)) \<Rightarrow> Some (Inr (ok, set_error kOk st2)))
            else Some (Inr (ev_error kConnectionClosed, set_error kConnectionClosed (c, w1)))
        | (RdErr err, w1) \<Rightarrow>
            if err \<noteq> EAGAIN \<and> err \<noteq> EWOULDBLOCK
            then Some (Inr (ev_error kSocketError, set_error kSocketError (c, w1)))
            else Some (Inr (ok, set_error kOk (c, w1))))"

definition handle_write :: "'w Env \<Rightarrow> 'w st \<Rightarrow> result \<times> 'w st" where
  "handle_write e st =
     (case st of (c, w) \<Rightarrow>
        if rb_empty (tx_buffer c) then (ok, set_error kOk (c, w))
        else case env_write e (conn_socket c) (rb_peek kTempReadSize (tx_buffer c)) w of
          (WrOk n, w1) \<Rightarrow>
            (ok, set_error kOk
               (check_low_watermark e (c\<lparr>tx_buffer := rb_advance n (tx_buffer c)\<rparr>, w1)))
        | (WrErr err, w1) \<Rightarrow>
            if err \<noteq> EAGAIN \<and> err \<noteq> EWOULDBLOCK
            then (ev_error kSocketError, set_error kSocketError (c, w1))
            else (ok, set_error kOk (c, w1)))"

definition handle_write_vectored :: "'w Env \<Rightarrow> 'w st \<Rightarrow> result \<times> 'w st" where
  "handle_write_vectored e st =
     (case st of (c, w) \<Rightarrow>
        if rb_empty (tx_buffer c) then (ok, set_error kOk (c, w))
        else let iov = rb_fill_iovec 2 (tx_buffer c) in
        if length iov = 0 then (ok, set_error kOk (c, w))
        else case env_writev e (conn_socket c) (iov_gather iov (rb_buffer (tx_buffer c))) w of
          (WrOk n, w1) \<Rightarrow>
            if n > 0 then
              (ok, set_error kOk
                 (check_low_watermark e (c\<lparr>tx_buffer := rb_advance n (tx_buffer c)\<rparr>, w1)))
            else (ok, set_error kOk (c, w1))
        | (WrErr err, w1) \<Rightarrow>
            if err \<noteq> EAGAIN \<and> err \<noteq> EWOULDBLOCK
            then (ev_error kSocketError, set_error kSocketError (c, w1))
            else (ok, set_error kOk (c, w1)))"

end
