(* ===== verification/Conn_Machine.thy ===== *)
theory Conn_Machine
  imports Connection
begin

text \<open>
  The connection as a state machine. \<open>api_step\<close> is what a user callback can do to a connection
  through the public interface, \<open>conn_step\<close> adds the library's own steps. Every operation of
  theory \<open>Connection\<close> is shown to be a sequence of these steps; the invariant of a connection and
  the order of its states are then proved once per step.
\<close>

section \<open>The order of the states\<close>

fun state_rank :: "ConnectionState \<Rightarrow> nat" where
  "state_rank kHandshaking = 0"
| "state_rank kOpen = 1"
| "state_rank kClosing = 2"
| "state_rank kClosed = 3"

lemma state_rank_inj: "state_rank a = state_rank b \<longleftrightarrow> a = b"
  by (cases a; cases b) simp_all

instantiation ConnectionState :: linorder
begin

definition less_eq_ConnectionState :: "ConnectionState \<Rightarrow> ConnectionState \<Rightarrow> bool" where
  "less_eq_ConnectionState a b \<longleftrightarrow> state_rank a \<le> state_rank b"

definition less_ConnectionState :: "ConnectionState \<Rightarrow> ConnectionState \<Rightarrow> bool" where
  "less_ConnectionState a b \<longleftrightarrow> state_rank a < state_rank b"

instance
  by standard (auto simp: less_eq_ConnectionState_def less_ConnectionState_def state_rank_inj [symmetric])

end

section \<open>Steps\<close>

inductive api_step :: "'w Env \<Rightarrow> Connection \<Rightarrow> Connection \<Rightarrow> bool" for e where
  api_send: "conn_ops c = kOpen \<Longrightarrow> api_step e c (write_frame payload op c)"
| api_pause: "kTxHighWatermark < rb_size (tx_buffer c) \<Longrightarrow> conn_ops c \<noteq> kHandshaking \<Longrightarrow>
    api_step e c (c\<lparr>write_paused := True\<rparr>)"
| api_close: "conn_ops c = kOpen \<Longrightarrow>
    api_step e c ((write_close_frame code c)\<lparr>conn_ops := kClosing, closing_at := t\<rparr>)"
| api_abort: "conn_ops c \<noteq> kOpen \<Longrightarrow> api_step e c (c\<lparr>conn_ops := kClosed\<rparr>)"
| api_socket: "conn_ops c = kClosed \<Longrightarrow>
    api_step e c (c\<lparr>conn_socket := fst (env_close e (conn_socket c) w)\<rparr>)"

abbreviation api_steps :: "'w Env \<Rightarrow> Connection \<Rightarrow> Connection \<Rightarrow> bool" where
  "api_steps e \<equiv> (api_step e)\<^sup>*\<^sup>*"

inductive conn_step :: "'w Env \<Rightarrow> Connection \<Rightarrow> Connection \<Rightarrow> bool" for e where
  cs_api: "api_step e c c' \<Longrightarrow> conn_step e c c'"
| cs_receive: "conn_step e c (c\<lparr>rx_buffer := rb_receive bs (rx_buffer c)\<rparr>)"
| cs_consume: "conn_step e c (c\<lparr>rx_buffer := rb_advance n (rx_buffer c)\<rparr>)"
| cs_touch: "conn_step e c (c\<lparr>last_activity := t\<rparr>)"
| cs_error: "conn_step e c (c\<lparr>last_error_code := code\<rparr>)"
| cs_upgrade: "conn_ops c = kHandshaking \<Longrightarrow> fst (rb_push (response_text (generate_accept_key k)) (tx_buffer c)) \<Longrightarrow>
    conn_step e c (c\<lparr>tx_buffer := snd (rb_push (response_text (generate_accept_key k)) (tx_buffer c)),
      handshake_completed := True, sec_websocket_key := [], conn_ops := kOpen\<rparr>)"
| cs_pong: "conn_ops c \<noteq> kHandshaking \<Longrightarrow> conn_step e c (write_frame payload kPong c)"
| cs_drain: "conn_step e c
    (let tx = rb_advance n (tx_buffer c)
     in c\<lparr>tx_buffer := tx, write_paused := (write_paused c \<and> kTxLowWatermark \<le> rb_size tx)\<rparr>)"
| cs_peer_close: "conn_ops c \<noteq> kHandshaking \<Longrightarrow> conn_step e c (c\<lparr>conn_ops := kClosed\<rparr>)"

abbreviation conn_steps :: "'w Env \<Rightarrow> Connection \<Rightarrow> Connection \<Rightarrow> bool" where
  "conn_steps e \<equiv> (conn_step e)\<^sup>*\<^sup>*"

text \<open>
  What the library relies on about the user's callbacks: their effect on the connection they
  get is one of calls of the public interface.
\<close>

definition uses_api :: "'w Env \<Rightarrow> ('w st \<Rightarrow> 'w st) \<Rightarrow> bool" where
  "uses_api e f \<longleftrightarrow> (\<forall>st. api_steps e (fst st) (fst (f st)))"

definition user_callbacks :: "'w Env \<Rightarrow> bool" where
  "user_callbacks e \<longleftrightarrow>
     (\<forall>f. on_open e = Some f \<longrightarrow> uses_api e f) \<and>
     (\<forall>f m. on_message e = Some f \<longrightarrow> uses_api e (f m)) \<and>
     (\<forall>f b. on_close e = Some f \<longrightarrow> uses_api e (f b)) \<and>
     (\<forall>f. on_error e = Some f \<longrightarrow> uses_api e f) \<and>
     (\<forall>f. on_backpressure e = Some f \<longrightarrow> uses_api e f) \<and>
     (\<forall>f. on_drain e = Some f \<longrightarrow> uses_api e f)"

section \<open>The invariant\<close>

definition conn_inv :: "Connection \<Rightarrow> bool" where
  "conn_inv c \<longleftrightarrow>
     rb_inv (rx_buffer c) \<and> rb_kCapacity (rx_buffer c) = kRxBufferSize \<and>
     rb_inv (tx_buffer c) \<and> rb_kCapacity (tx_buffer c) = kTxBufferSize \<and>
     (conn_ops c = kHandshaking \<longrightarrow> \<not> handshake_completed c \<and> rb_contents (tx_buffer c) = []) \<and>
     (conn_ops c = kOpen \<or> conn_ops c = kClosing \<longrightarrow> handshake_completed c) \<and>
     (write_paused c \<longrightarrow> kTxLowWatermark \<le> rb_size (tx_buffer c))"

section \<open>What writing a frame does\<close>

lemma length_header_bytes_le: "length (header_bytes op len msk) \<le> 10"
  by (simp add: length_header_bytes)

lemma write_frame_eq:
  "write_frame payload op c =
     (let hb = header_bytes op (word_of_nat (length payload)) False in
      if rb_available (tx_buffer c) < length hb then c
      else c\<lparr>tx_buffer := snd (rb_push payload (snd (rb_push hb (tx_buffer c))))\<rparr>)"
proof -
  have "snd (rb_push [] tx) = tx" for tx :: "u8 RingBuffer"
    by (simp add: rb_push_def)
  then show ?thesis
    by (auto simp: write_frame_def encode_frame_header_writes header_buf_def rb_push_ok Let_def
        split: prod.splits)
       (auto simp: rb_push_def Let_def split: if_splits)
qed

lemma write_close_frame_eq: "write_close_frame code c = write_frame (close_payload code) kClose c"
proof -
  have "length (close_payload code) = 2" "close_payload code \<noteq> []"
    by (simp_all add: close_payload_def)
  then show ?thesis
    by (simp add: write_close_frame_def write_frame_def split: option.split prod.split)
qed

lemma write_frame_fields [conn_frame, simp]:
  "conn_id (write_frame p op c) = conn_id c"
  "conn_socket (write_frame p op c) = conn_socket c"
  "rx_buffer (write_frame p op c) = rx_buffer c"
  "conn_ops (write_frame p op c) = conn_ops c"
  "handshake_completed (write_frame p op c) = handshake_completed c"
  "sec_websocket_key (write_frame p op c) = sec_websocket_key c"
  "last_error_code (write_frame p op c) = last_error_code c"
  "write_paused (write_frame p op c) = write_paused c"
  "created_at (write_frame p op c) = created_at c"
  "closing_at (write_frame p op c) = closing_at c"
  "last_activity (write_frame p op c) = last_activity c"
  by (simp_all add: write_frame_eq Let_def)

lemma write_frame_tx:
  fixes payload :: bytes and op :: OpCode
  assumes "rb_inv (tx_buffer c)"
  defines "hb \<equiv> header_bytes op (word_of_nat (length payload)) False"
  shows "rb_inv (tx_buffer (write_frame payload op c))"
    and "rb_kCapacity (tx_buffer (write_frame payload op c)) = rb_kCapacity (tx_buffer c)"
    and "rb_contents (tx_buffer (write_frame payload op c)) = rb_contents (tx_buffer c) @
      (if rb_available (tx_buffer c) < length hb then []
       else if rb_available (tx_buffer c) < length hb + length payload then hb
       else hb @ payload)"
proof -
  note push = rbq.push_contents rb_push_inv rb_push_capacity rb_available_contents
  have le: "length (rb_contents (tx_buffer c)) \<le> rb_kCapacity (tx_buffer c)"
    using assms(1) by (simp add: rb_inv_def)
  show "rb_inv (tx_buffer (write_frame payload op c))"
    "rb_kCapacity (tx_buffer (write_frame payload op c)) = rb_kCapacity (tx_buffer c)"
    using assms(1) by (simp_all add: write_frame_eq Let_def push)
  show "rb_contents (tx_buffer (write_frame payload op c)) = rb_contents (tx_buffer c) @
      (if rb_available (tx_buffer c) < length hb then []
       else if rb_available (tx_buffer c) < length hb + length payload then hb
       else hb @ payload)"
    using assms(1) le by (auto simp: write_frame_eq Let_def push hb_def)
qed

lemma write_frame_grows:
  "rb_inv (tx_buffer c) \<Longrightarrow> rb_size (tx_buffer c) \<le> rb_size (tx_buffer (write_frame p op c))"
  using write_frame_tx(3) [of c p op] rb_count_contents [of "tx_buffer (write_frame p op c)"]
  by (simp add: rb_size_def del: length_rb_contents) simp

section \<open>Steps keep the invariant and move the state forward\<close>

lemma write_frame_conn_inv: "conn_inv c \<Longrightarrow> conn_ops c \<noteq> kHandshaking \<Longrightarrow> conn_inv (write_frame p op c)"
  using write_frame_grows [of c p op]
  by (auto simp: conn_inv_def write_frame_tx(1,2))

lemma watermark_order: "kTxLowWatermark \<le> kTxHighWatermark"
  by (simp add: kTxLowWatermark_def kTxHighWatermark_def kTxBufferSize_def)

lemma api_step_inv: "api_step e c c' \<Longrightarrow> conn_inv c \<Longrightarrow> conn_inv c'"
proof (induction rule: api_step.induct)
  case (api_send c payload op)
  then show ?case by (simp add: write_frame_conn_inv)
next
  case (api_pause c)
  then show ?case using watermark_order by (simp add: conn_inv_def)
next
  case (api_close c t code)
  then have "conn_inv (write_close_frame code c)"
    by (simp add: write_close_frame_eq write_frame_conn_inv)
  with api_close show ?case by (simp add: conn_inv_def write_close_frame_eq)
qed (auto simp: conn_inv_def)

lemma conn_step_inv: "conn_step e c c' \<Longrightarrow> conn_inv c \<Longrightarrow> conn_inv c'"
proof (induction rule: conn_step.induct)
  case (cs_api c c')
  then show ?case by (rule api_step_inv)
next
  case (cs_receive c bs)
  then show ?case by (simp add: conn_inv_def rb_receive_inv rb_receive_capacity)
next
  case (cs_consume c n)
  then show ?case by (simp add: conn_inv_def rb_advance_inv rb_advance_capacity)
next
  case (cs_upgrade c k)
  then show ?case
    by (simp add: conn_inv_def rb_push_inv rb_push_capacity rb_size_def)
       (auto simp: rb_push_def Let_def split: if_splits)
next
  case (cs_pong c payload)
  then show ?case by (simp add: write_frame_conn_inv)
next
  case (cs_drain c n)
  then show ?case
    by (simp add: conn_inv_def Let_def rb_advance_inv rb_advance_capacity rb_advance_contents)
qed (auto simp: conn_inv_def)

lemma state_rank_le: "state_rank s \<le> 3"
  by (cases s) simp_all

lemma api_step_order: "api_step e c c' \<Longrightarrow> conn_ops c \<le> conn_ops c'"
  by (induction rule: api_step.induct)
     (auto simp: less_eq_ConnectionState_def write_close_frame_eq state_rank_le)

lemma conn_step_order: "conn_step e c c' \<Longrightarrow> conn_ops c \<le> conn_ops c'"
proof (induction rule: conn_step.induct)
  case (cs_api c c')
  then show ?case by (rule api_step_order)
qed (auto simp: less_eq_ConnectionState_def Let_def state_rank_le)

lemma api_conn_steps: "api_steps e c c' \<Longrightarrow> conn_steps e c c'"
  by (induction rule: rtranclp_induct) (auto intro: cs_api rtranclp.rtrancl_into_rtrancl)

lemma conn_steps_inv: "conn_steps e c c' \<Longrightarrow> conn_inv c \<Longrightarrow> conn_inv c'"
  by (induction rule: rtranclp_induct) (auto intro: conn_step_inv)

lemma conn_steps_order: "conn_steps e c c' \<Longrightarrow> conn_ops c \<le> conn_ops c'"
  by (induction rule: rtranclp_induct) (auto intro: conn_step_order order_trans)

lemma api_step_rx: "api_step e c c' \<Longrightarrow> rx_buffer c' = rx_buffer c"
  by (induction rule: api_step.induct) (simp_all add: write_close_frame_eq)

lemma api_steps_rx: "api_steps e c c' \<Longrightarrow> rx_buffer c' = rx_buffer c"
  by (induction rule: rtranclp_induct) (simp_all add: api_step_rx)

text \<open>A connection that left the handshake never returns to it, and a closed one stays closed.\<close>

lemma order_top: "kClosed \<le> s \<longleftrightarrow> s = kClosed"
  by (cases s) (simp_all add: less_eq_ConnectionState_def)

lemma order_upgraded: "a \<le> b \<Longrightarrow> a \<noteq> kHandshaking \<Longrightarrow> b \<noteq> kHandshaking"
  by (cases a; cases b) (simp_all add: less_eq_ConnectionState_def)

section \<open>Operations are sequences of steps\<close>

lemma user_callbacksD:
  assumes "user_callbacks e"
  shows "on_open e = Some f \<Longrightarrow> uses_api e f"
    and "on_message e = Some g \<Longrightarrow> uses_api e (g m)"
    and "on_close e = Some k \<Longrightarrow> uses_api e (k b)"
    and "on_backpressure e = Some f \<Longrightarrow> uses_api e f"
    and "on_drain e = Some f \<Longrightarrow> uses_api e f"
  using assms by (auto simp: user_callbacks_def)

lemma call_opt_api:
  "(\<And>f. g = Some f \<Longrightarrow> uses_api e f) \<Longrightarrow> api_steps e (fst st) (fst (call_opt g st))"
  by (cases g; cases st) (auto simp: call_opt_def uses_api_def)

lemma call_on_close_api:
  "user_callbacks e \<Longrightarrow> api_steps e (fst st) (fst (call_opt (map_option (\<lambda>f. f b) (on_close e)) st))"
  by (rule call_opt_api) (auto dest: user_callbacksD(3))

lemma api_then: "api_step e c c' \<Longrightarrow> api_steps e c' c'' \<Longrightarrow> api_steps e c c''"
  by (rule converse_rtranclp_into_rtranclp)

lemma conn_then: "conn_step e c c' \<Longrightarrow> conn_steps e c' c'' \<Longrightarrow> conn_steps e c c''"
  by (rule converse_rtranclp_into_rtranclp)

lemma check_high_watermark_api:
  assumes "user_callbacks e" and "conn_ops (fst st) \<noteq> kHandshaking"
  shows "api_steps e (fst st) (fst (check_high_watermark e st))"
proof (cases st)
  case (Pair c w)
  have "api_step e c (c\<lparr>write_paused := True\<rparr>)" if "kTxHighWatermark < rb_size (tx_buffer c)"
    using assms(2) Pair that by (auto intro: api_pause)
  with Pair show ?thesis
    using call_opt_api [of "on_backpressure e" e "(c\<lparr>write_paused := True\<rparr>, w)"]
      user_callbacksD(4) [OF assms(1)]
    by (auto simp: check_high_watermark_def intro: api_then)
qed

lemma send_impl_api:
  assumes "user_callbacks e"
  shows "api_steps e (fst st) (fst (send_impl e payload binary st))"
proof (cases st)
  case (Pair c w)
  show ?thesis
  proof (cases "conn_ops c = kOpen")
    case True
    let ?c = "write_frame payload (if binary then kBinary else kText) c"
    have "api_steps e ?c (fst (check_high_watermark e (?c, w)))"
      using check_high_watermark_api [OF assms, of "(?c, w)"] True by simp
    with api_send [OF True] have "api_steps e c (fst (check_high_watermark e (?c, w)))"
      by (rule api_then)
    with Pair True show ?thesis by (simp add: send_impl_def get_state_def)
  qed (simp add: Pair send_impl_def get_state_def)
qed

lemma close_socket_api: "conn_ops (fst st) = kClosed \<Longrightarrow> api_steps e (fst st) (fst (close_socket e st))"
  by (cases st; cases "env_close e (conn_socket (fst st)) (snd st)")
     (auto simp: close_socket_def intro: api_then [OF api_socket, of _ _ "snd st"]
           dest: arg_cong [where f = fst])

lemma api_steps_closed: "api_steps e c c' \<Longrightarrow> conn_ops c = kClosed \<Longrightarrow> conn_ops c' = kClosed"
  using conn_steps_order [OF api_conn_steps, of e c c'] by (simp add: order_top)

lemma transition_closed_api:
  assumes "user_callbacks e"
  shows "api_steps e (c\<lparr>conn_ops := kClosed\<rparr>)
    (fst (close_socket e (transition_to_state e kClosed (c, w))))"
    and "conn_ops (fst (close_socket e (transition_to_state e kClosed (c, w)))) = kClosed"
proof -
  let ?st = "transition_to_state e kClosed (c, w)"
  have steps: "api_steps e (c\<lparr>conn_ops := kClosed\<rparr>) (fst ?st)"
    using call_on_close_api [OF assms, of "(c\<lparr>conn_ops := kClosed\<rparr>, w)" True] by simp
  then have "conn_ops (fst ?st) = kClosed" by (rule api_steps_closed) simp
  with steps show *: "api_steps e (c\<lparr>conn_ops := kClosed\<rparr>) (fst (close_socket e ?st))"
    by (auto intro: rtranclp_trans close_socket_api)
  from api_steps_closed [OF *] show "conn_ops (fst (close_socket e ?st)) = kClosed" by simp
qed

lemma conn_close_api:
  assumes "user_callbacks e"
  shows "api_steps e (fst st) (fst (conn_close e code st))"
proof (cases st)
  case (Pair c w)
  show ?thesis
  proof (cases "conn_ops c = kOpen")
    case True
    then show ?thesis using api_close [OF True, of e "fst (env_now e w)" code]
      by (cases "env_now e w") (simp add: Pair conn_close_def get_state_def)
  next
    case False
    then show ?thesis using api_abort [OF False, of e] transition_closed_api(1) [OF assms, of c w]
      by (simp add: Pair conn_close_def get_state_def converse_rtranclp_into_rtranclp)
  qed
qed

lemma parse_handshake_result:
  assumes "parse_handshake c = (res, c')"
  shows "\<not> ev_has_value res \<and> (c' = c \<or> (\<exists>err. c' = c\<lparr>last_error_code := err\<rparr>) \<or>
      (\<exists>n err. c' = c\<lparr>rx_buffer := rb_advance n (rx_buffer c), last_error_code := err\<rparr>)) \<or>
    ev_has_value res \<and> (\<exists>n k tx. rb_push (response_text (generate_accept_key k)) (tx_buffer c) = (True, tx) \<and>
      c' = c\<lparr>rx_buffer := rb_advance n (rx_buffer c), tx_buffer := tx, handshake_completed := True,
             sec_websocket_key := [], last_error_code := kOk\<rparr>)"
  using assms unfolding parse_handshake_def Let_def
  by (auto split: if_splits option.splits prod.splits)

lemma parse_handshake_steps:
  assumes "parse_handshake c = (res, c')" and "conn_ops c = kHandshaking"
  shows "ev_has_value res \<Longrightarrow> conn_steps e c (c'\<lparr>conn_ops := kOpen\<rparr>)"
    and "\<not> ev_has_value res \<Longrightarrow> conn_steps e c c'"
proof -
  have fail: "conn_steps e c (c\<lparr>last_error_code := err\<rparr>)" for err
    by (rule r_into_rtranclp) (rule cs_error)
  have fail1: "conn_steps e c (c\<lparr>rx_buffer := rb_advance n (rx_buffer c), last_error_code := err\<rparr>)" for n err
    using r_into_rtranclp [of "conn_step e", OF cs_error [of e "c\<lparr>rx_buffer := rb_advance n (rx_buffer c)\<rparr>" err]]
    by (rule conn_then [OF cs_consume])
  have up: "conn_steps e c (c\<lparr>rx_buffer := rb_advance n (rx_buffer c), tx_buffer := tx,
      handshake_completed := True, sec_websocket_key := [], last_error_code := kOk, conn_ops := kOpen\<rparr>)"
    if "rb_push (response_text (generate_accept_key k)) (tx_buffer c) = (True, tx)" for n tx k
  proof -
    let ?c = "c\<lparr>rx_buffer := rb_advance n (rx_buffer c), last_error_code := kOk\<rparr>"
    have "conn_step e ?c (?c\<lparr>tx_buffer := tx, handshake_completed := True, sec_websocket_key := [],
        conn_ops := kOpen\<rparr>)"
      using cs_upgrade [of ?c k e] assms(2) that by simp
    from rtranclp.rtrancl_into_rtrancl [OF fail1 this] show ?thesis by (cases c) simp
  qed
  show "ev_has_value res \<Longrightarrow> conn_steps e c (c'\<lparr>conn_ops := kOpen\<rparr>)"
    using parse_handshake_result [OF assms(1)] up by auto
  show "\<not> ev_has_value res \<Longrightarrow> conn_steps e c c'"
    using parse_handshake_result [OF assms(1)] fail fail1 by auto
qed

lemma transition_open_steps:
  "user_callbacks e \<Longrightarrow> api_steps e (c\<lparr>conn_ops := kOpen\<rparr>) (fst (transition_to_state e kOpen (c, w)))"
  using call_opt_api [of "on_open e" e "(c\<lparr>conn_ops := kOpen\<rparr>, w)"] by (auto dest: user_callbacksD(1))

lemma handshake_on_data_steps:
  assumes "user_callbacks e" and "conn_ops (fst st) = kHandshaking"
    and "handshake_on_data e st = Some (Inr (res, st'))"
  shows "conn_steps e (fst st) (fst st')"
proof (cases st)
  case (Pair c w)
  obtain r c1 where p: "parse_handshake c = (r, c1)" by fastforce
  show ?thesis
  proof (cases "ev_has_value r")
    case True
    with parse_handshake_steps(1) [OF p, of e] assms(2) Pair
    have "conn_steps e c (c1\<lparr>conn_ops := kOpen\<rparr>)" by simp
    also have "conn_steps e (c1\<lparr>conn_ops := kOpen\<rparr>) (fst (transition_to_state e kOpen (c1, w)))"
      using transition_open_steps [OF assms(1)] by (rule api_conn_steps)
    finally show ?thesis using assms(3) True p Pair by (simp add: handshake_on_data_def)
  next
    case False
    with parse_handshake_steps(2) [OF p, of e] assms(2,3) p Pair show ?thesis
      by (auto simp: handshake_on_data_def)
  qed
qed

text \<open>One pass of the frame loop, and the loop by induction over its finite runs.\<close>

lemma uses_api_steps: "uses_api e f \<Longrightarrow> conn_steps e (fst st) (fst (f st))"
  by (cases st) (auto simp: uses_api_def intro: api_conn_steps)

lemma consume_after:
  "conn_steps e c (fst st) \<Longrightarrow> conn_steps e c (fst (consume_rx n st))"
  unfolding consume_rx_def fst_conv
  by (erule rtranclp.rtrancl_into_rtrancl) (rule cs_consume)

lemma peer_close_steps:
  assumes "user_callbacks e" and "conn_ops (fst st) \<noteq> kHandshaking"
  shows "conn_steps e (fst st) (fst (close_socket e (transition_to_state e kClosed
           (call_opt (map_option (\<lambda>f. f False) (on_close e)) st))))"
proof -
  obtain c1 w1 where st1: "call_opt (map_option (\<lambda>f. f False) (on_close e)) st = (c1, w1)"
    by fastforce
  have s1: "conn_steps e (fst st) c1"
    using call_on_close_api [OF assms(1), of st False] st1 by (auto intro: api_conn_steps)
  then have "conn_ops c1 \<noteq> kHandshaking"
    using conn_steps_order order_upgraded assms(2) by blast
  then have "conn_step e c1 (c1\<lparr>conn_ops := kClosed\<rparr>)" by (rule cs_peer_close)
  with transition_closed_api(1) [OF assms(1), of c1 w1]
  have "conn_steps e c1 (fst (close_socket e (transition_to_state e kClosed (c1, w1))))"
    by (auto intro: api_conn_steps conn_then)
  with s1 show ?thesis unfolding st1 by (rule rtranclp_trans)
qed

lemma parse_frames_body_Next:
  assumes "parse_frames_body e (c, w) = Next st'"
  shows "\<exists>n st1. st' = consume_rx n st1 \<and>
    (st1 = (c, w) \<or> (\<exists>f p. on_message e = Some f \<and> st1 = f p (c, w)) \<or>
     (\<exists>p. st1 = (write_frame p kPong c, w)))"
  using assms
  by (auto simp: parse_frames_body_def Let_def simp del: split_paired_Ex
      split: if_splits option.splits prod.splits) blast+

lemma parse_frames_body_Return:
  "parse_frames_body e st = Return st' \<Longrightarrow> st' = close_socket e (transition_to_state e kClosed
     (call_opt (map_option (\<lambda>f. f False) (on_close e)) st))"
  by (auto simp: parse_frames_body_def Let_def split: if_splits option.splits prod.splits)

lemma parse_frames_body_steps:
  assumes "user_callbacks e" and "conn_ops (fst st) \<noteq> kHandshaking"
    and "parse_frames_body e st = Next st'"
  shows "conn_steps e (fst st) (fst st')"
proof (cases st)
  case (Pair c w)
  obtain n st1 where st': "st' = consume_rx n st1"
    and st1: "st1 = (c, w) \<or> (\<exists>f p. on_message e = Some f \<and> st1 = f p (c, w)) \<or>
       (\<exists>p. st1 = (write_frame p kPong c, w))"
    using parse_frames_body_Next [OF assms(3)[unfolded Pair]] by blast
  have "conn_steps e c (fst (f p (c, w)))" if "on_message e = Some f" for f p
    using uses_api_steps [OF user_callbacksD(2) [OF assms(1) that], of "(c, w)" p] by simp
  moreover have "conn_steps e c (write_frame p kPong c)" for p
    using cs_pong [of c e p] assms(2) Pair by auto
  ultimately have "conn_steps e c (fst st1)" using st1 by (elim disjE exE conjE) simp_all
  then show ?thesis using consume_after [of e c st1 n] st' Pair by simp
qed

lemma parse_frames_steps:
  assumes "parse_frames e st = Some (Inr st')" and "user_callbacks e"
    and "conn_ops (fst st) \<noteq> kHandshaking"
  shows "conn_steps e (fst st) (fst st')"
proof -
  have "user_callbacks e \<longrightarrow> conn_ops (fst st) \<noteq> kHandshaking \<longrightarrow>
      (case r of Inl _ \<Rightarrow> True | Inr st' \<Rightarrow> conn_steps e (fst st) (fst st'))"
    if "parse_frames e st = Some r" for r
  proof (rule parse_frames.raw_induct [OF _ that])
    fix pf :: "'a Env \<Rightarrow> 'a st \<Rightarrow> 'a st outcome" and e st r
    assume IH: "\<And>e st r. pf e st = Some r \<Longrightarrow> user_callbacks e \<longrightarrow> conn_ops (fst st) \<noteq> kHandshaking \<longrightarrow>
        (case r of Inl _ \<Rightarrow> True | Inr st' \<Rightarrow> conn_steps e (fst st) (fst st'))"
      and run: "(case parse_frames_body e st of Break \<Rightarrow> Some (Inr st) | Return st' \<Rightarrow> Some (Inr st')
        | Next st' \<Rightarrow> pf e st' | Fault \<Rightarrow> Some (Inl OutOfBounds)) = Some r"
    show "user_callbacks e \<longrightarrow> conn_ops (fst st) \<noteq> kHandshaking \<longrightarrow>
        (case r of Inl _ \<Rightarrow> True | Inr st' \<Rightarrow> conn_steps e (fst st) (fst st'))"
    proof (cases "parse_frames_body e st")
      case (Return st1)
      with run parse_frames_body_Return [OF Return] peer_close_steps [of e st] show ?thesis by auto
    next
      case (Next st1)
      have "conn_ops (fst st1) \<noteq> kHandshaking"
        if "conn_steps e (fst st) (fst st1)" "conn_ops (fst st) \<noteq> kHandshaking"
        using conn_steps_order order_upgraded that by blast
      with IH [of e st1 r] run Next parse_frames_body_steps [OF _ _ Next] show ?thesis
        by (auto split: sum.splits intro: rtranclp_trans)
    qed (use run in auto)
  qed
  from this [OF assms(1)] assms(2,3) show ?thesis by simp
qed

section \<open>Reactor I/O as steps\<close>

lemma open_on_data_steps:
  assumes "user_callbacks e" and "conn_ops (fst st) = kOpen"
    and "open_on_data e st = Some (Inr (res, st'))"
  shows "conn_steps e (fst st) (fst st')"
  using assms parse_frames_steps [of e st st']
  by (auto simp: open_on_data_def split: option.splits sum.splits)

lemma closing_on_data_steps:
  assumes "user_callbacks e" and "conn_ops (fst st) = kClosing"
    and "closing_on_data e st = Some (Inr (res, st'))"
  shows "conn_steps e (fst st) (fst st')"
proof (cases st)
  case (Pair c w)
  have "conn_step e c (c\<lparr>conn_ops := kClosed\<rparr>)"
    using assms(2) Pair by (intro cs_peer_close) simp
  then have "conn_steps e c (fst (close_socket e (transition_to_state e kClosed (c, w))))"
    using api_conn_steps [OF transition_closed_api(1) [OF assms(1)]] by (rule conn_then)
  with assms(3) Pair show ?thesis
    by (auto simp: closing_on_data_def Let_def split: if_splits prod.splits)
qed

lemma on_data_steps:
  assumes "user_callbacks e"
    and "ops_on_data (ops_table (conn_ops (fst st))) e st = Some (Inr (res, st'))"
  shows "conn_steps e (fst st) (fst st')"
  using assms handshake_on_data_steps [OF assms(1)] open_on_data_steps [OF assms(1)]
    closing_on_data_steps [OF assms(1)]
  by (cases "conn_ops (fst st)")
     (auto simp: kHandshakeOps_def kOpenOps_def kClosingOps_def kClosedOps_def closed_on_data_def)

lemma set_error_steps: "conn_steps e (fst st) (fst (set_error code st))"
  using cs_error [of e "fst st" code] by (auto simp: set_error_def)

lemma touch_activity_steps: "conn_steps e (fst st) (fst (touch_activity e st))"
  using cs_touch [of e "fst st" "fst (env_now e (snd st))"]
  by (cases st; cases "env_now e (snd st)") (auto simp: touch_activity_def)

lemma handle_read_cases:
  assumes "handle_read e (c, w) = Some (Inr (res, st'))"
  obtains (full) "st' = set_error kBufferFull (c, w)"
  | (idle) fd ls r w1 code where "env_readv e fd ls w = (r, w1)" "st' = set_error code (c, w1)"
  | (got) fd ls bs w1 r2 st1 st2 where "env_readv e fd ls w = (RdOk bs, w1)"
      "st1 = touch_activity e (c\<lparr>rx_buffer := rb_receive bs (rx_buffer c)\<rparr>, w1)"
      "ops_on_data (ops_table (conn_ops (fst st1))) e st1 = Some (Inr (r2, st2))"
      "st' = set_error kOk st2"
  using assms unfolding handle_read_def Let_def
  by (auto split: if_splits prod.splits ReadResult.splits option.splits sum.splits)

lemma handle_read_steps:
  assumes cb: "user_callbacks e" and read: "handle_read e st = Some (Inr (res, st'))"
  shows "conn_steps e (fst st) (fst st')"
proof -
  obtain c w where st: "st = (c, w)" by fastforce
  from read [unfolded st] show ?thesis
  proof (cases rule: handle_read_cases)
    case full
    then show ?thesis using set_error_steps [of e "(c, w)"] st by simp
  next
    case (idle fd ls r w1 code)
    then show ?thesis using set_error_steps [of e "(c, w1)"] st by simp
  next
    case (got fd ls bs w1 r2 st1 st2)
    let ?c = "c\<lparr>rx_buffer := rb_receive bs (rx_buffer c)\<rparr>"
    have "conn_step e c ?c" by (rule cs_receive)
    moreover have "conn_steps e ?c (fst st1)"
      using touch_activity_steps [of e "(?c, w1)"] got(2) by simp
    moreover have "conn_steps e (fst st1) (fst st2)" using cb got(3) by (rule on_data_steps)
    moreover have "conn_steps e (fst st2) (fst st')" using got(4) set_error_steps by simp
    ultimately show ?thesis unfolding st fst_conv by (meson conn_then rtranclp_trans)
  qed
qed

lemma drained_steps:
  assumes "user_callbacks e"
  shows "conn_steps e c (fst (set_error kOk (check_low_watermark e
    (c\<lparr>tx_buffer := rb_advance n (tx_buffer c)\<rparr>, w))))"
proof -
  let ?tx = "rb_advance n (tx_buffer c)"
  let ?c = "c\<lparr>tx_buffer := ?tx, write_paused := (write_paused c \<and> kTxLowWatermark \<le> rb_size ?tx)\<rparr>"
  have "conn_step e c ?c" using cs_drain [of e c n] by (simp add: Let_def)
  moreover have "conn_steps e ?c (fst (check_low_watermark e (c\<lparr>tx_buffer := ?tx\<rparr>, w)))"
  proof (cases "write_paused c \<and> rb_size ?tx < kTxLowWatermark")
    case True
    then show ?thesis
      using call_opt_api [of "on_drain e" e "(?c, w)"] user_callbacksD(5) [OF assms]
      by (auto simp: check_low_watermark_def intro: api_conn_steps)
  next
    case False
    then have "write_paused c \<and> kTxLowWatermark \<le> rb_size ?tx \<longleftrightarrow> write_paused c" by auto
    with False show ?thesis by (auto simp: check_low_watermark_def)
  qed
  ultimately show ?thesis
    using set_error_steps by (meson conn_then rtranclp_trans)
qed

lemma handle_write_steps:
  assumes "user_callbacks e"
  shows "conn_steps e (fst st) (fst (snd (handle_write e st)))"
  using drained_steps [OF assms] set_error_steps [of e "(fst st, _)"]
  by (cases st) (auto simp: handle_write_def split: prod.split WriteResult.split)

lemma handle_write_vectored_steps:
  assumes "user_callbacks e"
  shows "conn_steps e (fst st) (fst (snd (handle_write_vectored e st)))"
  using drained_steps [OF assms] set_error_steps [of e "(fst st, _)"]
  by (cases st) (auto simp: handle_write_vectored_def Let_def split: prod.split WriteResult.split)

section \<open>Reachable connections\<close>

text \<open>
  Every order in which the reactor and the user can operate on one connection after its
  construction; between two operations the rest of the world may change in any way.
\<close>

inductive reachable :: "'w Env \<Rightarrow> 'w st \<Rightarrow> bool" for e where
  r_new: "reachable e (snd (Connection_ctor e sock nid w))"
| r_world: "reachable e (c, w) \<Longrightarrow> reachable e (c, w')"
| r_read: "reachable e st \<Longrightarrow> handle_read e st = Some (Inr (res, st')) \<Longrightarrow> reachable e st'"
| r_write: "reachable e st \<Longrightarrow> reachable e (snd (handle_write e st))"
| r_writev: "reachable e st \<Longrightarrow> reachable e (snd (handle_write_vectored e st))"
| r_send: "reachable e st \<Longrightarrow> reachable e (send_impl e payload binary st)"
| r_close: "reachable e st \<Longrightarrow> reachable e (conn_close e code st)"

lemma ctor_inv: "conn_inv (fst (snd (Connection_ctor e sock nid w)))"
  by (simp add: Connection_ctor_def conn_inv_def rb_inv_init rb_contents_init rb_capacity_init
      kRxBufferSize_def kTxBufferSize_def split: prod.split)

lemma reachable_inv:
  assumes "reachable e st" and cb: "user_callbacks e"
  shows "conn_inv (fst st)"
  using assms(1)
proof induction
  case (r_new sock nid w)
  show ?case by (rule ctor_inv)
next
  case (r_read st res st')
  then show ?case using handle_read_steps [OF cb] conn_steps_inv by blast
next
  case (r_write st)
  then show ?case using handle_write_steps [OF cb] conn_steps_inv by blast
next
  case (r_writev st)
  then show ?case using handle_write_vectored_steps [OF cb] conn_steps_inv by blast
next
  case (r_send st payload binary)
  then show ?case using send_impl_api [OF cb] api_conn_steps conn_steps_inv by blast
next
  case (r_close st code)
  then show ?case using conn_close_api [OF cb] api_conn_steps conn_steps_inv by blast
qed simp

section \<open>Writing\<close>

lemma handle_write_sent:
  assumes "rb_inv (tx_buffer c)" and "\<not> rb_empty (tx_buffer c)"
    and "env_write e (conn_socket c) (take kTempReadSize (rb_contents (tx_buffer c))) w = (WrOk n, w1)"
  shows "handle_write e (c, w) =
    (ok, set_error kOk (check_low_watermark e (c\<lparr>tx_buffer := rb_advance n (tx_buffer c)\<rparr>, w1)))"
  using assms by (simp add: handle_write_def rb_peek_contents)

lemma handle_write_vectored_sent:
  assumes "rb_inv (tx_buffer c)" and "\<not> rb_empty (tx_buffer c)" and "0 < n"
    and "env_writev e (conn_socket c) (rb_contents (tx_buffer c)) w = (WrOk n, w1)"
  shows "handle_write_vectored e (c, w) =
    (ok, set_error kOk (check_low_watermark e (c\<lparr>tx_buffer := rb_advance n (tx_buffer c)\<rparr>, w1)))"
proof -
  have "rb_fill_iovec 2 (tx_buffer c) \<noteq> []"
    using assms(2) by (simp add: rb_fill_iovec_def Let_def)
  then show ?thesis using assms rb_fill_iovec_gather [OF assms(1), of 2]
    by (simp add: handle_write_vectored_def Let_def)
qed

section \<open>A concrete environment\<close>

text \<open>
  An environment for concrete runs: the world is the stream of bytes waiting to be read, the
  clock stands still, a socket accepts all it is offered, and closing gives the handle -1.
\<close>

definition sample_env :: "bytes Env" where
  "sample_env = \<lparr>
     env_now = (\<lambda>w. (0, w)),
     env_readv = (\<lambda>fd lens w. (RdOk (take (sum_list lens) w), drop (sum_list lens) w)),
     env_writev = (\<lambda>fd bs w. (WrOk (length bs), w)),
     env_write = (\<lambda>fd bs w. (WrOk (length bs), w)),
     env_set_non_blocking = (\<lambda>fd w. w),
     env_close = (\<lambda>fd w. (-1, w)),
     env_is_open = (\<lambda>fd. 0 \<le> fd),
     on_open = None, on_message = None, on_close = None, on_error = None,
     on_backpressure = None, on_drain = None\<rparr>"

definition sample_conn :: Connection where
  "sample_conn = fst (snd (Connection_ctor sample_env 3 1 []))"

text \<open>An open connection that has received \<open>bs\<close> and not looked at it, with \<open>out\<close> to send.\<close>

definition sample_open :: "bytes \<Rightarrow> bytes \<Rightarrow> Connection" where
  "sample_open bs out = sample_conn\<lparr>conn_ops := kOpen, handshake_completed := True,
     rx_buffer := snd (rb_push bs (rb_init kRxBufferSize 0)),
     tx_buffer := snd (rb_push out (rb_init kTxBufferSize 0))\<rparr>"

lemma sample_callbacks: "user_callbacks sample_env"
  by (simp add: user_callbacks_def sample_env_def)

lemma sample_conn_fields:
  "conn_inv sample_conn" "conn_ops sample_conn = kHandshaking" "conn_socket sample_conn = 3"
  "rx_buffer sample_conn = rb_init kRxBufferSize 0" "tx_buffer sample_conn = rb_init kTxBufferSize 0"
  "\<not> write_paused sample_conn" "created_at sample_conn = 0"
  using ctor_inv [of sample_env 3 1 "[]"] by (simp_all add: sample_conn_def Connection_ctor_def sample_env_def)

lemma sample_open_fields [simp]:
  "conn_ops (sample_open bs out) = kOpen" "conn_socket (sample_open bs out) = 3"
  "\<not> write_paused (sample_open bs out)"
  by (simp_all add: sample_open_def sample_conn_fields)

lemma sample_buffer:
  fixes bs :: bytes
  assumes "length bs \<le> n" and "0 < n"
  shows "rb_inv (snd (rb_push bs (rb_init n 0)))" "rb_contents (snd (rb_push bs (rb_init n 0))) = bs"
    "rb_kCapacity (snd (rb_push bs (rb_init n 0))) = n"
proof -
  let ?q = "rb_init n 0 :: u8 RingBuffer"
  have inv: "rb_inv ?q" using assms(2) by (rule rb_inv_init)
  have room: "length bs \<le> rb_available ?q"
    using assms(1) by (simp add: rb_available_contents rb_capacity_init rb_contents_init del: length_rb_contents)
  show "rb_inv (snd (rb_push bs ?q))" using inv by (rule rb_push_inv)
  show "rb_contents (snd (rb_push bs ?q)) = bs" using inv room by (simp add: rb_push_contents rb_contents_init)
  show "rb_kCapacity (snd (rb_push bs ?q)) = n" by (simp add: rb_push_capacity rb_capacity_init)
qed

lemma sample_open_inv:
  assumes "length bs \<le> 4096" and "length out \<le> 8192"
  shows "conn_inv (sample_open bs out)" "rb_contents (rx_buffer (sample_open bs out)) = bs"
    "rb_contents (tx_buffer (sample_open bs out)) = out"
    "rb_kCapacity (tx_buffer (sample_open bs out)) = 8192"
    "rb_kCapacity (rx_buffer (sample_open bs out)) = 4096"
  using assms sample_buffer [of bs 4096] sample_buffer [of out 8192] sample_conn_fields
  by (simp_all add: sample_open_def conn_inv_def kRxBufferSize_def kTxBufferSize_def)

end
