(* ===== verification/Frame_Stream.thy ===== *)
theory Frame_Stream
  imports Conn_Machine
begin

text \<open>
  What the loop of \<^verbatim>\<open>Connection::parse_frames\<close> means for the stream of bytes a peer sends: the
  sequence of complete frames at the front of the receive buffer, dispatched in order, with the
  incomplete rest left in place. The loop returns when no header announces a length that wraps
  with its own size; with such a header it may run forever.
\<close>

section \<open>The frames of a byte sequence\<close>

text \<open>The first frame, if it is complete: opcode, unmasked payload and size on the wire.\<close>

definition frame_at :: "bytes \<Rightarrow> (OpCode \<times> bytes \<times> nat) option" where
  "frame_at bs =
     (let (n, hdr) = parse_frame_header bs frame_header0;
          len = unat (payload_len hdr);
          raw = take len (drop n bs)
      in if n = 0 \<or> length bs < n + len then None
         else Some (opcode hdr,
                    if masked hdr then unmask_payload raw (take 4 (drop (n - 4) bs)) else raw,
                    n + len))"

lemma frame_at_size: "frame_at bs = Some (op, p, n) \<Longrightarrow> 0 < n \<and> n \<le> length bs"
  by (auto simp: frame_at_def Let_def split: prod.splits if_splits)

function decode_frames :: "bytes \<Rightarrow> (OpCode \<times> bytes \<times> nat) list" where
  "decode_frames bs =
     (case frame_at bs of None \<Rightarrow> [] | Some (op, p, n) \<Rightarrow> (op, p, n) # decode_frames (drop n bs))"
  by auto
termination by (relation "measure length") (auto dest: frame_at_size)

declare decode_frames.simps [simp del]

definition frames_size :: "(OpCode \<times> bytes \<times> nat) list \<Rightarrow> nat" where
  "frames_size fs = sum_list (map (\<lambda>(op, p, n). n) fs)"

text \<open>
  \<open>header_wraps\<close>: the first header announces a payload whose size overflows 64 bits when the
  header size is added; \<open>well_framed\<close>: no header at a frame boundary does.
\<close>

definition header_wraps :: "bytes \<Rightarrow> bool" where
  "header_wraps bs \<longleftrightarrow>
     (let (n, hdr) = parse_frame_header bs frame_header0
      in n \<noteq> 0 \<and> 2 ^ 64 \<le> n + unat (payload_len hdr))"

function well_framed :: "bytes \<Rightarrow> bool" where
  "well_framed bs \<longleftrightarrow>
     \<not> header_wraps bs \<and>
     (case frame_at bs of None \<Rightarrow> True | Some (op, p, n) \<Rightarrow> well_framed (drop n bs))"
  by auto
termination by (relation "measure length") (auto dest: frame_at_size)

declare well_framed.simps [simp del]

section \<open>Dispatching frames\<close>

definition deliver :: "'w Env \<Rightarrow> OpCode \<Rightarrow> bytes \<Rightarrow> 'w st \<Rightarrow> 'w st" where
  "deliver e op p st =
     (if op = kText \<or> op = kBinary then call_opt (map_option (\<lambda>f. f p) (on_message e)) st
      else if op = kPing then (write_frame p kPong (fst st), snd st)
      else st)"

definition peer_close :: "'w Env \<Rightarrow> 'w st \<Rightarrow> 'w st" where
  "peer_close e st = close_socket e (transition_to_state e kClosed
     (call_opt (map_option (\<lambda>f. f False) (on_close e)) st))"

fun dispatch_frames :: "'w Env \<Rightarrow> (OpCode \<times> bytes \<times> nat) list \<Rightarrow> 'w st \<Rightarrow> 'w st" where
  "dispatch_frames e [] st = st"
| "dispatch_frames e ((op, p, n) # fs) st =
     (if op = kClose then peer_close e st
      else dispatch_frames e fs (consume_rx n (deliver e op p st)))"

section \<open>One pass of the loop\<close>

lemma header_size_bound: "parse_frame_header bs h0 = (n, hdr) \<Longrightarrow> n \<le> 14 \<and> n \<le> length bs"
  using parse_frame_header_size [of bs h0] by auto

lemma total_unat:
  "n + unat l < 2 ^ 64 \<Longrightarrow> unat (word_of_nat n + l :: u64) = n + unat l"
  by (simp add: unat_word_ariths unat_of_nat)

lemma peek_all:
  "rb_inv rb \<Longrightarrow> rb_kCapacity rb = 4096 \<Longrightarrow> rb_peek 4096 rb = rb_contents rb"
  by (simp add: rb_peek_contents rb_inv_def)

lemma parse_frames_body_frame:
  assumes inv: "rb_inv (rx_buffer c)" and cap: "rb_kCapacity (rx_buffer c) = 4096"
    and nw: "\<not> header_wraps (rb_contents (rx_buffer c))"
  shows "parse_frames_body e (c, w) =
    (case frame_at (rb_contents (rx_buffer c)) of
       None \<Rightarrow> Break
     | Some (op, p, n) \<Rightarrow> if op = kClose then Return (peer_close e (c, w))
                         else Next (consume_rx n (deliver e op p (c, w))))"
proof -
  let ?bs = "rb_contents (rx_buffer c)"
  obtain n hdr where hdr: "parse_frame_header ?bs frame_header0 = (n, hdr)" by fastforce
  have len: "length ?bs \<le> 4096" using inv cap by (simp add: rb_inv_def)
  have empty: "n = 0" if "?bs = []" using header_size_bound [OF hdr] that by simp
  show ?thesis
  proof (cases "n = 0")
    case True
    then show ?thesis using hdr
      by (simp add: parse_frames_body_def peek_all [OF inv cap] frame_at_def Let_def)
  next
    case False
    with nw hdr have "n + unat (payload_len hdr) < 2 ^ 64" by (auto simp: header_wraps_def)
    then have total: "unat (word_of_nat n + payload_len hdr) = n + unat (payload_len hdr)"
      by (rule total_unat)
    have short: "word_of_nat (rb_count (rx_buffer c)) < word_of_nat n + payload_len hdr \<longleftrightarrow>
        rb_count (rx_buffer c) < n + unat (payload_len hdr)"
      using len by (simp add: word_less_nat_alt total unat_of_nat)
    have "?bs \<noteq> []" using empty False by blast
    then show ?thesis using hdr False len
      by (simp add: parse_frames_body_def peek_all [OF inv cap] frame_at_def Let_def short total
          deliver_def peer_close_def call_opt_def split: option.split)
  qed
qed

section \<open>The loop\<close>

lemma deliver_rx:
  assumes "user_callbacks e" shows "rx_buffer (fst (deliver e op p st)) = rx_buffer (fst st)"
proof -
  have "api_steps e (fst st) (fst (call_opt (map_option (\<lambda>f. f p) (on_message e)) st))"
    by (rule call_opt_api) (auto dest: user_callbacksD(2) [OF assms])
  from api_steps_rx [OF this] show ?thesis by (simp add: deliver_def)
qed

lemma parse_frames_unfold:
  assumes "rb_inv (rx_buffer (fst st))" and "rb_kCapacity (rx_buffer (fst st)) = 4096"
    and "\<not> header_wraps (rb_contents (rx_buffer (fst st)))"
  shows "parse_frames e st =
    (case frame_at (rb_contents (rx_buffer (fst st))) of
       None \<Rightarrow> Some (Inr st)
     | Some (op, p, n) \<Rightarrow> if op = kClose then Some (Inr (peer_close e st))
                         else parse_frames e (consume_rx n (deliver e op p st)))"
  using assms parse_frames_body_frame [of "fst st" e "snd st"]
  by (subst parse_frames.simps) (simp split: option.split)

lemma parse_frames_dispatch:
  assumes cb: "user_callbacks e"
    and "rb_inv (rx_buffer (fst st))" and "rb_kCapacity (rx_buffer (fst st)) = 4096"
    and "well_framed (rb_contents (rx_buffer (fst st)))"
  shows "parse_frames e st =
    Some (Inr (dispatch_frames e (decode_frames (rb_contents (rx_buffer (fst st)))) st))"
  using assms(2-4)
proof (induction "rb_contents (rx_buffer (fst st))" arbitrary: st rule: decode_frames.induct)
  case 1
  let ?bs = "rb_contents (rx_buffer (fst st))"
  have nw: "\<not> header_wraps ?bs" using 1(4) well_framed.simps by blast
  note unfold = parse_frames_unfold [OF 1(2,3) nw]
  show ?case
  proof (cases "frame_at ?bs")
    case None
    then show ?thesis by (simp add: unfold decode_frames.simps [of ?bs])
  next
    case (Some f)
    obtain op p n where f: "f = (op, p, n)" by (cases f)
    let ?st = "consume_rx n (deliver e op p st)"
    have rx: "rx_buffer (fst ?st) = rb_advance n (rx_buffer (fst st))"
      by (simp add: consume_rx_def deliver_rx [OF cb])
    have "well_framed (drop n ?bs)" using 1(4) Some f well_framed.simps [of ?bs] by simp
    with rx 1(1) [OF Some [unfolded f] refl refl, of ?st] 1(2,3)
    have "parse_frames e ?st = Some (Inr (dispatch_frames e (decode_frames (drop n ?bs)) ?st))"
      by (simp add: rb_advance_inv rb_advance_capacity rb_advance_contents)
    then show ?thesis using Some f by (simp add: unfold decode_frames.simps [of ?bs])
  qed
qed

section \<open>The stream may arrive in pieces\<close>

lemma frame_at_append: "frame_at a = Some f \<Longrightarrow> frame_at (a @ b) = Some f"
proof -
  assume f: "frame_at a = Some f"
  obtain n hdr where hdr: "parse_frame_header a frame_header0 = (n, hdr)" by fastforce
  with f have n: "0 < n" "n + unat (payload_len hdr) \<le> length a"
    by (auto simp: frame_at_def Let_def split: if_splits)
  then have hdr': "parse_frame_header (a @ b) frame_header0 = (n, hdr)"
    using parse_frame_header_append [of a frame_header0 b] hdr by simp
  have "take 4 (drop (n - 4) (a @ b)) = take 4 (drop (n - 4) a)" if "masked hdr"
  proof -
    have "4 \<le> n" using hdr n(1) that
      by (auto simp: parse_frame_header_def Let_def split: if_splits option.splits)
    then show ?thesis using n by simp
  qed
  then show ?thesis using f n hdr hdr' by (auto simp: frame_at_def Let_def)
qed

lemma frame_at_rest: "frame_at bs = Some (op, p, n) \<Longrightarrow> decode_frames bs = (op, p, n) # decode_frames (drop n bs)"
  by (simp add: decode_frames.simps [of bs])

lemma frames_size_le: "frames_size (decode_frames bs) \<le> length bs"
proof (induction bs rule: decode_frames.induct)
  case (1 bs)
  show ?case
  proof (cases "frame_at bs")
    case None
    then show ?thesis by (simp add: decode_frames.simps [of bs] frames_size_def)
  next
    case (Some f)
    then obtain op p n where f: "frame_at bs = Some (op, p, n)" by (cases f) auto
    from 1 [OF f refl refl] frame_at_size [OF f] show ?thesis
      by (auto simp: frame_at_rest [OF f] frames_size_def)
  qed
qed

lemma decode_frames_append:
  "decode_frames (a @ b) =
     decode_frames a @ decode_frames (drop (frames_size (decode_frames a)) a @ b)"
proof (induction a rule: decode_frames.induct)
  case (1 a)
  show ?case
  proof (cases "frame_at a")
    case None
    then show ?thesis by (simp add: decode_frames.simps [of a] frames_size_def)
  next
    case (Some f)
    then obtain op p n where f: "frame_at a = Some (op, p, n)" by (cases f) auto
    have "drop n (a @ b) = drop n a @ b" using frame_at_size [OF f] by simp
    then show ?thesis using 1 [OF f refl refl]
      by (simp add: frame_at_rest [OF f] frame_at_rest [OF frame_at_append [OF f]] frames_size_def add.commute)
  qed
qed

section \<open>Frames on the wire\<close>

text \<open>
  A frame as a peer sends it: a client masks with a four-byte key, a server does not mask.
\<close>

definition wire_frame :: "OpCode \<Rightarrow> bytes option \<Rightarrow> bytes \<Rightarrow> bytes" where
  "wire_frame op key payload =
     header_bytes op (word_of_nat (length payload)) (key \<noteq> None) @
     (case key of None \<Rightarrow> payload | Some k \<Rightarrow> k @ unmask_payload payload k)"

definition key_ok :: "bytes option \<Rightarrow> bool" where
  "key_ok key \<longleftrightarrow> (case key of None \<Rightarrow> True | Some k \<Rightarrow> length k = 4)"

lemma length_unmask_loop [simp]: "length (unmask_loop bs i k) = length bs"
  by (induction bs arbitrary: i) simp_all

lemma length_unmask_payload [simp]: "length (unmask_payload bs k) = length bs"
  by (simp add: unmask_payload_def)

lemma unmask_loop_twice: "unmask_loop (unmask_loop bs i k) i k = bs"
  by (induction bs arbitrary: i) (simp_all add: xor.assoc)

lemma unmask_payload_twice [simp]: "unmask_payload (unmask_payload bs k) k = bs"
  by (simp add: unmask_payload_def unmask_loop_twice)

lemma length_wire_frame:
  "key_ok key \<Longrightarrow> length (wire_frame op key p) =
     length (header_bytes op (word_of_nat (length p)) (key \<noteq> None)) + (if key = None then 0 else 4) + length p"
  by (auto simp: wire_frame_def key_ok_def split: option.splits)

lemma frame_at_wire:
  assumes "opcode_wf op" and "key_ok key" and "length p < 2 ^ 64"
  shows "frame_at (wire_frame op key p @ rest) = Some (op, p, length (wire_frame op key p))"
proof -
  let ?hb = "header_bytes op (word_of_nat (length p)) (key \<noteq> None)"
  let ?tail = "(case key of None \<Rightarrow> p | Some k \<Rightarrow> k @ unmask_payload p k) @ rest"
  have hdr: "parse_frame_header (?hb @ ?tail) frame_header0 =
      (length ?hb + (if key \<noteq> None then 4 else 0),
       frame_header0\<lparr>fin := True, opcode := op, masked := key \<noteq> None, payload_len := word_of_nat (length p)\<rparr>)"
    using assms(2) by (intro parse_header_bytes assms(1)) (auto simp: key_ok_def)
  have "unat (word_of_nat (length p) :: u64) = length p"
    using assms(3) by (simp add: unat_of_nat)
  moreover have "length ?hb > 0" by (simp add: length_header_bytes)
  moreover have "wire_frame op key p @ rest = ?hb @ ?tail" by (simp add: wire_frame_def)
  ultimately show ?thesis using assms(2) hdr
    by (cases key) (simp_all add: frame_at_def Let_def length_wire_frame key_ok_def)
qed

lemma decode_wire_frames:
  "\<forall>(op, key, p) \<in> set fs. opcode_wf op \<and> key_ok key \<and> length p < 2 ^ 64 \<Longrightarrow>
   decode_frames (concat (map (\<lambda>(op, key, p). wire_frame op key p) fs) @ rest) =
     map (\<lambda>(op, key, p). (op, p, length (wire_frame op key p))) fs @ decode_frames rest"
proof (induction fs)
  case (Cons f fs)
  obtain op key p where f: "f = (op, key, p)" by (cases f)
  with Cons frame_at_wire [of op key p] show ?case by (simp add: frame_at_rest)
qed simp

lemma header_wraps_wire:
  assumes "opcode_wf op" and "key_ok key" and "length p \<le> 4096"
  shows "\<not> header_wraps (wire_frame op key p @ rest)"
proof -
  let ?hb = "header_bytes op (word_of_nat (length p)) (key \<noteq> None)"
  let ?tail = "(case key of None \<Rightarrow> p | Some k \<Rightarrow> k @ unmask_payload p k) @ rest"
  have "parse_frame_header (?hb @ ?tail) frame_header0 =
      (length ?hb + (if key \<noteq> None then 4 else 0),
       frame_header0\<lparr>fin := True, opcode := op, masked := key \<noteq> None, payload_len := word_of_nat (length p)\<rparr>)"
    using assms(2) by (intro parse_header_bytes assms(1)) (auto simp: key_ok_def)
  moreover have "unat (word_of_nat (length p) :: u64) = length p"
    using assms(3) by (simp add: unat_of_nat)
  moreover have "wire_frame op key p @ rest = ?hb @ ?tail" by (simp add: wire_frame_def)
  ultimately show ?thesis using assms(3) length_header_bytes_le [of op "word_of_nat (length p)" "key \<noteq> None"]
    by (auto simp: header_wraps_def)
qed

lemma well_framed_wire_frames:
  "\<forall>(op, key, p) \<in> set fs. opcode_wf op \<and> key_ok key \<and> length p \<le> 4096 \<Longrightarrow>
   well_framed (concat (map (\<lambda>(op, key, p). wire_frame op key p) fs))"
proof (induction fs)
  case Nil
  show ?case by (simp add: well_framed.simps [of "[]"] header_wraps_def frame_at_def parse_frame_header_def)
next
  case (Cons f fs)
  obtain op key p where f: "f = (op, key, p)" by (cases f)
  with Cons frame_at_wire [of op key p] header_wraps_wire [of op key p] show ?case
    by (simp add: well_framed.simps [of "wire_frame op key p @ _"])
qed

section \<open>Headers whose length wraps\<close>

text \<open>A pass that changes nothing repeats forever.\<close>

lemma parse_frames_stuck:
  assumes "parse_frames_body e st = Next st"
  shows "parse_frames e st = None"
proof (rule ccontr)
  assume "parse_frames e st \<noteq> None"
  then obtain r where r: "parse_frames e st = Some r" by blast
  have "parse_frames_body e st \<noteq> Next st"
    by (rule parse_frames.raw_induct [OF _ r, of "\<lambda>e st r. parse_frames_body e st \<noteq> Next st"]) force
  with assms show False by blast
qed

lemma rb_advance_0: "rb_inv rb \<Longrightarrow> rb_advance 0 rb = rb"
  by (simp add: rb_advance_def rb_inv_def)

lemma two_to_64: "(18446744073709551616 :: u64) = 0"
  by simp

lemma parse_frames_body_stuck:
  assumes "conn_inv c" and "op = kPong \<or> op = kContinuation"
    and "rb_contents (rx_buffer c) = header_bytes op 18446744073709551606 False @ rest"
  shows "parse_frames_body e (c, w) = Next (c, w)"
proof -
  have inv: "rb_inv (rx_buffer c)" "rb_kCapacity (rx_buffer c) = 4096"
    using assms(1) by (simp_all add: conn_inv_def kRxBufferSize_def)
  have "opcode_wf op" using assms(2) by (auto simp: opcode_wf_def opcode_of_u8_def)
  then have "parse_frame_header (rb_contents (rx_buffer c)) frame_header0 =
      (10, frame_header0\<lparr>fin := True, opcode := op, masked := False, payload_len := 18446744073709551606\<rparr>)"
    unfolding assms(3) by (subst parse_header_bytes) (simp_all add: length_header_bytes)
  moreover have "rb_contents (rx_buffer c) \<noteq> []"
    unfolding assms(3) by (simp add: header_bytes_def)
  ultimately show ?thesis using assms(2)
    by (auto simp: parse_frames_body_def peek_all [OF inv] Let_def consume_rx_def
        rb_advance_0 [OF inv(1)] two_to_64)
qed

lemma parse_frames_body_fault:
  assumes "conn_inv c" and "opcode_wf op" and "4 \<le> length rest"
    and "rb_contents (rx_buffer c) = header_bytes op 18446744073709551602 True @ rest"
  shows "parse_frames_body e (c, w) = Fault"
proof -
  have inv: "rb_inv (rx_buffer c)" "rb_kCapacity (rx_buffer c) = 4096"
    using assms(1) by (simp_all add: conn_inv_def kRxBufferSize_def)
  have "parse_frame_header (rb_contents (rx_buffer c)) frame_header0 =
      (14, frame_header0\<lparr>fin := True, opcode := op, masked := True, payload_len := 18446744073709551602\<rparr>)"
    unfolding assms(4) using assms(2,3) by (subst parse_header_bytes) (simp_all add: length_header_bytes)
  moreover have "rb_contents (rx_buffer c) \<noteq> []"
    unfolding assms(4) by (simp add: header_bytes_def)
  ultimately show ?thesis
    by (simp add: parse_frames_body_def peek_all [OF inv] Let_def two_to_64)
qed

end
