(* ===== verification/Server_Stats.thy ===== *)
theory Server_Stats
  imports Ewss_Prelude
begin

text \<open>
  \<^verbatim>\<open>ServerStats\<close> of \<^verbatim>\<open>src/include/ewss.hpp\<close>: 64-bit counters, which wrap. The
  reactor is single threaded; an atomic operation is one state change.
\<close>

record ServerStats =
  total_messages_in :: u64
  total_messages_out :: u64
  total_bytes_in :: u64
  total_bytes_out :: u64
  total_connections :: u64
  active_connections :: u64
  rejected_connections :: u64
  handshake_errors :: u64
  socket_errors :: u64
  buffer_overflows :: u64
  last_poll_latency_us :: u64
  max_poll_latency_us :: u64
  pool_acquires :: u64
  pool_releases :: u64
  pool_exhausted :: u64

definition stats_reset :: "ServerStats \<Rightarrow> ServerStats" where
  "stats_reset s = s\<lparr>
     total_messages_in := 0, total_messages_out := 0,
     total_bytes_in := 0, total_bytes_out := 0,
     total_connections := 0, active_connections := 0, rejected_connections := 0,
     handshake_errors := 0, socket_errors := 0, buffer_overflows := 0,
     last_poll_latency_us := 0, max_poll_latency_us := 0,
     pool_acquires := 0, pool_releases := 0, pool_exhausted := 0\<rparr>"

definition stats_init :: ServerStats where
  "stats_init = \<lparr>
     total_messages_in = 0, total_messages_out = 0,
     total_bytes_in = 0, total_bytes_out = 0,
     total_connections = 0, active_connections = 0, rejected_connections = 0,
     handshake_errors = 0, socket_errors = 0, buffer_overflows = 0,
     last_poll_latency_us = 0, max_poll_latency_us = 0,
     pool_acquires = 0, pool_releases = 0, pool_exhausted = 0\<rparr>"

text \<open>\<^verbatim>\<open>pool_capacity * 9 / 10\<close> is unsigned 64-bit arithmetic.\<close>

definition is_overloaded :: "u64 \<Rightarrow> ServerStats \<Rightarrow> bool" where
  "is_overloaded cap s \<longleftrightarrow> active_connections s > cap * 9 div 10"

lemma stats_reset_init: "stats_reset s = stats_init"
  by (cases s) (simp add: stats_reset_def stats_init_def)

text \<open>For a capacity whose ninefold fits 64 bits, the test is the 90 per cent rule.\<close>

lemma is_overloaded_nat:
  assumes "unat cap * 9 < 2 ^ 64"
  shows "is_overloaded cap s \<longleftrightarrow> unat (active_connections s) > unat cap * 9 div 10"
proof -
  have "unat (cap * 9) = unat cap * 9"
    using assms by (simp add: unat_word_ariths)
  then show ?thesis
    by (simp add: is_overloaded_def word_less_nat_alt unat_div)
qed

section \<open>Properties\<close>

text \<open>Overload protection refuses above 90 per cent of the connection limit: for every limit
  whose ninefold fits 64 bits, \<^verbatim>\<open>is_overloaded\<close> holds exactly when the number of active
  connections exceeds nine tenths of the limit, rounded down.\<close>

lemma overloaded_above_ninety_percent:
  assumes "unat cap * 9 < 2 ^ 64"
  shows "is_overloaded cap s \<longleftrightarrow> unat (active_connections s) > unat cap * 9 div 10"
  using assms by (rule is_overloaded_nat)

end
