(* ===== verification/Server.thy ===== *)
theory Server
  imports Frame_Stream Server_Stats
begin

text \<open>
  Class \<^verbatim>\<open>Server\<close> of \<^verbatim>\<open>src/include/ewss.hpp\<close>: the poll reactor. The operating system acts
  on the part of the world outside the program, the field \<open>outside\<close>; user callbacks act on the
  connection they get and on the server. While a connection is worked on, it is held beside the
  server and written back to its slot afterwards.
\<close>

section \<open>State\<close>

record TcpTuning =
  tcp_nodelay :: bool
  tcp_quickack :: bool
  so_keepalive :: bool
  keepalive_idle_s :: int
  keepalive_interval_s :: int
  keepalive_count :: int

definition tuning_default :: TcpTuning where
  "tuning_default = \<lparr>tcp_nodelay = False, tcp_quickack = False, so_keepalive = False,
     keepalive_idle_s = 60, keepalive_interval_s = 10, keepalive_count = 5\<rparr>"

definition kMaxConnections :: nat where "kMaxConnections = 64"

text \<open>
  The array \<^verbatim>\<open>poll_fds_\<close> is rebuilt in every iteration and not part of the state;
  \<open>next_conn_id\<close> is the static counter of \<^verbatim>\<open>ewss_next_conn_id\<close>.
\<close>

record 'k Server =
  port :: u16
  bind_addr :: bytes
  server_sock :: int
  is_running :: bool
  use_writev :: bool
  connections :: "Connection FixedVector"
  max_connections :: u64
  poll_timeout_ms :: int
  tcp_tuning :: TcpTuning
  stats :: ServerStats
  next_conn_id :: u64
  outside :: 'k

section \<open>Operating system and callbacks\<close>

datatype AcceptResult = AcOk int | AcErr int
datatype SockOpt = OptNoDelay | OptQuickAck | OptKeepAlive | OptKeepIdle | OptKeepIntvl | OptKeepCnt

text \<open>
  \<open>os_poll\<close> returns the result of \<^verbatim>\<open>poll\<close> and the \<^verbatim>\<open>revents\<close> of every entry;
  \<open>os_last_owner\<close> says whether the server holds the last \<^verbatim>\<open>shared_ptr\<close> to a connection.
\<close>

record 'k Os =
  os_now :: "'k \<Rightarrow> int \<times> 'k"
  os_readv :: "int \<Rightarrow> nat list \<Rightarrow> 'k \<Rightarrow> ReadResult \<times> 'k"
  os_writev :: "int \<Rightarrow> bytes \<Rightarrow> 'k \<Rightarrow> WriteResult \<times> 'k"
  os_write :: "int \<Rightarrow> bytes \<Rightarrow> 'k \<Rightarrow> WriteResult \<times> 'k"
  os_set_non_blocking :: "int \<Rightarrow> 'k \<Rightarrow> 'k"
  os_close :: "int \<Rightarrow> 'k \<Rightarrow> int \<times> 'k"
  os_is_open :: "int \<Rightarrow> bool"
  os_poll :: "(int \<times> u16) list \<Rightarrow> int \<Rightarrow> 'k \<Rightarrow> (int \<times> u16 list) \<times> 'k"
  os_accept :: "int \<Rightarrow> 'k \<Rightarrow> AcceptResult \<times> 'k"
  os_close_fd :: "int \<Rightarrow> 'k \<Rightarrow> 'k"
  os_setsockopt :: "int \<Rightarrow> SockOpt \<Rightarrow> int \<Rightarrow> 'k \<Rightarrow> 'k"
  os_last_owner :: "Connection \<Rightarrow> 'k \<Rightarrow> bool"
  os_socket :: "'k \<Rightarrow> int \<times> 'k"
  os_reuse_addr :: "int \<Rightarrow> 'k \<Rightarrow> 'k"
  os_bind :: "int \<Rightarrow> u16 \<Rightarrow> bytes \<Rightarrow> 'k \<Rightarrow> int \<times> 'k"
  os_listen :: "int \<Rightarrow> nat \<Rightarrow> 'k \<Rightarrow> int \<times> 'k"

record 'k Callbacks =
  srv_on_connect :: "('k Server st \<Rightarrow> 'k Server st) option"
  srv_on_message :: "(bytes \<Rightarrow> 'k Server st \<Rightarrow> 'k Server st) option"
  srv_on_close :: "(bool \<Rightarrow> 'k Server st \<Rightarrow> 'k Server st) option"
  srv_on_error :: "('k Server st \<Rightarrow> 'k Server st) option"
  srv_on_backpressure :: "('k Server st \<Rightarrow> 'k Server st) option"
  srv_on_drain :: "('k Server st \<Rightarrow> 'k Server st) option"

definition on_outside :: "('k \<Rightarrow> 'a \<times> 'k) \<Rightarrow> 'k Server \<Rightarrow> 'a \<times> 'k Server" where
  "on_outside f s = (case f (outside s) of (x, k) \<Rightarrow> (x, s\<lparr>outside := k\<rparr>))"

definition change_outside :: "('k \<Rightarrow> 'k) \<Rightarrow> 'k Server \<Rightarrow> 'k Server" where
  "change_outside f s = s\<lparr>outside := f (outside s)\<rparr>"

text \<open>
  The environment of every connection: \<^verbatim>\<open>accept_connection\<close> copies the server's callbacks to
  each connection it makes.
\<close>

definition conn_env :: "'k Os \<Rightarrow> 'k Callbacks \<Rightarrow> 'k Server Env" where
  "conn_env os cb = \<lparr>
     env_now = on_outside (os_now os),
     env_readv = (\<lambda>fd lens. on_outside (os_readv os fd lens)),
     env_writev = (\<lambda>fd bs. on_outside (os_writev os fd bs)),
     env_write = (\<lambda>fd bs. on_outside (os_write os fd bs)),
     env_set_non_blocking = (\<lambda>fd. change_outside (os_set_non_blocking os fd)),
     env_close = (\<lambda>fd. on_outside (os_close os fd)),
     env_is_open = os_is_open os,
     on_open = srv_on_connect cb, on_message = srv_on_message cb, on_close = srv_on_close cb,
     on_error = srv_on_error cb, on_backpressure = srv_on_backpressure cb,
     on_drain = srv_on_drain cb\<rparr>"

section \<open>Construction\<close>

text \<open>
  The constructor throws when a call fails, after closing a socket it opened; the failing call
  and the outside world are the value then. An empty address binds to every interface.
\<close>

datatype ServerError = SocketFailed | BindFailed | ListenFailed

definition Server_ctor :: "'k Os \<Rightarrow> u64 \<Rightarrow> u16 \<Rightarrow> bytes \<Rightarrow> 'k \<Rightarrow> (ServerError \<times> 'k) + 'k Server" where
  "Server_ctor os nid p addr k =
     (let (sock, k1) = os_socket os k in
      if sock < 0 then Inl (SocketFailed, k1)
      else let (b, k2) = os_bind os sock p addr (os_reuse_addr os sock k1) in
      if b < 0 then Inl (BindFailed, os_close_fd os sock k2)
      else let (l, k3) = os_listen os sock 128 k2 in
      if l < 0 then Inl (ListenFailed, os_close_fd os sock k3)
      else Inr \<lparr>port = p, bind_addr = addr, server_sock = sock, is_running = False,
                use_writev = True, connections = fv_init kMaxConnections, max_connections = 50,
                poll_timeout_ms = 1000, tcp_tuning = tuning_default, stats = stats_init,
                next_conn_id = nid, outside = os_set_non_blocking os sock k3\<rparr>)"

section \<open>Setters and queries\<close>

definition stop :: "'k Server \<Rightarrow> 'k Server" where
  "stop s = s\<lparr>is_running := False\<rparr>"

definition set_max_connections :: "u64 \<Rightarrow> 'k Server \<Rightarrow> 'k Server" where
  "set_max_connections m s = s\<lparr>max_connections := m\<rparr>"

definition set_poll_timeout_ms :: "int \<Rightarrow> 'k Server \<Rightarrow> 'k Server" where
  "set_poll_timeout_ms t s = s\<lparr>poll_timeout_ms := t\<rparr>"

definition set_tcp_tuning :: "TcpTuning \<Rightarrow> 'k Server \<Rightarrow> 'k Server" where
  "set_tcp_tuning t s = s\<lparr>tcp_tuning := t\<rparr>"

definition set_use_writev :: "bool \<Rightarrow> 'k Server \<Rightarrow> 'k Server" where
  "set_use_writev b s = s\<lparr>use_writev := b\<rparr>"

definition get_connection_count :: "'k Server \<Rightarrow> nat" where
  "get_connection_count s = fv_size (connections s)"

definition reset_stats :: "'k Server \<Rightarrow> 'k Server" where
  "reset_stats s = s\<lparr>stats := stats_reset (stats s)\<rparr>"

section \<open>Accepting\<close>

definition apply_tcp_tuning :: "'k Os \<Rightarrow> int \<Rightarrow> 'k Server \<Rightarrow> 'k Server" where
  "apply_tcp_tuning os fd s =
     (let t = tcp_tuning s;
          opts = (if tcp_nodelay t then [(OptNoDelay, 1)] else []) @
                 (if tcp_quickack t then [(OptQuickAck, 1)] else []) @
                 (if so_keepalive t
                  then [(OptKeepAlive, 1), (OptKeepIdle, keepalive_idle_s t),
                        (OptKeepIntvl, keepalive_interval_s t), (OptKeepCnt, keepalive_count t)]
                  else [])
      in fold (\<lambda>(opt, v). change_outside (os_setsockopt os fd opt v)) opts s)"

definition count_stat :: "(ServerStats \<Rightarrow> ServerStats) \<Rightarrow> 'k Server \<Rightarrow> 'k Server" where
  "count_stat f s = s\<lparr>stats := f (stats s)\<rparr>"

definition accept_connection :: "'k Os \<Rightarrow> 'k Callbacks \<Rightarrow> 'k Server \<Rightarrow> result \<times> 'k Server" where
  "accept_connection os cb s =
     (if word_of_nat (fv_size (connections s)) \<ge> max_connections s \<or> fv_full (connections s)
      then (ev_error kMaxConnectionsExceeded,
            count_stat (\<lambda>t. t\<lparr>rejected_connections := rejected_connections t + 1\<rparr>) s)
      else case on_outside (os_accept os (server_sock s)) s of
        (AcErr err, s1) \<Rightarrow>
          if err \<noteq> EAGAIN \<and> err \<noteq> EWOULDBLOCK
          then (ev_error kSocketError, count_stat (\<lambda>t. t\<lparr>socket_errors := socket_errors t + 1\<rparr>) s1)
          else (ok, s1)
      | (AcOk client_sock, s1) \<Rightarrow>
          let s2 = apply_tcp_tuning os client_sock
                     (change_outside (os_set_non_blocking os client_sock) s1);
              (nid, conn, s3) = Connection_ctor (conn_env os cb) client_sock (next_conn_id s2) s2;
              s4 = s3\<lparr>next_conn_id := nid,
                      connections := snd (fv_push_back conn (connections s3))\<rparr>
          in (ok, count_stat (\<lambda>t. t\<lparr>total_connections := total_connections t + 1,
                                    active_connections := active_connections t + 1\<rparr>) s4))"

section \<open>Working on one connection\<close>

text \<open>\<open>put_back\<close> stores a connection that was worked on in its slot.\<close>

definition put_back :: "nat \<Rightarrow> 'k Server st \<Rightarrow> 'k Server" where
  "put_back i st = snd st\<lparr>connections := fv_set i (fst st) (connections (snd st))\<rparr>"

definition POLLIN :: u16 where "POLLIN = 0x001"
definition POLLOUT :: u16 where "POLLOUT = 0x004"
definition POLLERR :: u16 where "POLLERR = 0x008"
definition POLLHUP :: u16 where "POLLHUP = 0x010"

definition close_if_error :: "'k Server Env \<Rightarrow> result \<times> 'k Server st \<Rightarrow> 'k Server st" where
  "close_if_error e r = (if \<not> ev_has_value (fst r) then conn_close e 1000 (snd r) else snd r)"

definition io_read :: "'k Server Env \<Rightarrow> u16 \<Rightarrow> 'k Server st \<Rightarrow> 'k Server st outcome" where
  "io_read e revents st =
     (if revents AND POLLIN \<noteq> 0
      then (case handle_read e st of None \<Rightarrow> None | Some (Inl f) \<Rightarrow> Some (Inl f)
            | Some (Inr r) \<Rightarrow> Some (Inr (close_if_error e r)))
      else Some (Inr st))"

definition io_write :: "'k Server Env \<Rightarrow> u16 \<Rightarrow> 'k Server st \<Rightarrow> 'k Server st" where
  "io_write e revents st =
     (if revents AND POLLOUT \<noteq> 0
      then close_if_error e (if use_writev (snd st) then handle_write_vectored e st
                             else handle_write e st)
      else st)"

definition io_hangup :: "'k Server Env \<Rightarrow> u16 \<Rightarrow> 'k Server st \<Rightarrow> 'k Server st" where
  "io_hangup e revents st =
     (if revents AND (POLLERR OR POLLHUP) \<noteq> 0 then conn_close e 1000 st else st)"

definition handle_connection_io ::
    "'k Server Env \<Rightarrow> u16 \<Rightarrow> 'k Server st \<Rightarrow> 'k Server st outcome" where
  "handle_connection_io e revents st =
     (case io_read e revents st of None \<Rightarrow> None | Some (Inl f) \<Rightarrow> Some (Inl f)
      | Some (Inr st1) \<Rightarrow> Some (Inr (io_hangup e revents (io_write e revents st1))))"

section \<open>One iteration of the reactor\<close>

definition conn_events :: "Connection \<Rightarrow> u16" where
  "conn_events c = (if has_data_to_send c then POLLIN OR POLLOUT else POLLIN)"

definition build_poll_fds :: "'k Server \<Rightarrow> (int \<times> u16) list" where
  "build_poll_fds s =
     (server_sock s, POLLIN) # map (\<lambda>c. (conn_socket c, conn_events c)) (fv_list (connections s))"

definition poll_us :: "int \<Rightarrow> int \<Rightarrow> u64" where
  "poll_us t0 t1 = (let d = t1 - t0 in word_of_int (if d < 0 then - (- d div 1000) else d div 1000))"

definition record_latency :: "u64 \<Rightarrow> ServerStats \<Rightarrow> ServerStats" where
  "record_latency us t =
     (let t1 = t\<lparr>last_poll_latency_us := us\<rparr>
      in if us > max_poll_latency_us t1 then t1\<lparr>max_poll_latency_us := us\<rparr> else t1)"

definition handle_accept :: "'k Os \<Rightarrow> 'k Callbacks \<Rightarrow> 'k Server \<Rightarrow> 'k Server" where
  "handle_accept os cb s =
     (if is_overloaded (max_connections s) (stats s) then
        let s1 = count_stat (\<lambda>t. t\<lparr>rejected_connections := rejected_connections t + 1\<rparr>) s
        in (case on_outside (os_accept os (server_sock s1)) s1 of
              (AcOk reject_sock, s2) \<Rightarrow>
                if reject_sock \<ge> 0 then change_outside (os_close_fd os reject_sock) s2 else s2
            | (AcErr err, s2) \<Rightarrow> s2)
      else snd (accept_connection os cb s))"

text \<open>
  The I/O loop over the entries of the poll array, by connection index; a slot without a
  connection is outside the vector.
\<close>

fun io_loop :: "'k Server Env \<Rightarrow> u16 list \<Rightarrow> nat list \<Rightarrow> 'k Server \<Rightarrow> 'k Server outcome" where
  "io_loop e revents [] s = Some (Inr s)"
| "io_loop e revents (i # is) s =
     (if i \<ge> fv_size (connections s) then Some (Inr s)
      else case fv_at (connections s) i of
        None \<Rightarrow> Some (Inl OutOfBounds)
      | Some c \<Rightarrow>
          (case handle_connection_io e (if i + 1 < length revents then revents ! (i + 1) else 0) (c, s) of
             None \<Rightarrow> None
           | Some (Inl f) \<Rightarrow> Some (Inl f)
           | Some (Inr st) \<Rightarrow> io_loop e revents is (put_back i st)))"

text \<open>\<^verbatim>\<open>||\<close> reads the clock for the second test only when the first is false.\<close>

definition enforce_timeout :: "'k Server Env \<Rightarrow> 'k Server st \<Rightarrow> 'k Server st" where
  "enforce_timeout e st =
     (let (hs, w1) = is_handshake_timed_out e st in
      if hs then conn_close e 1000 (fst st, w1)
      else let (cl, w2) = is_close_timed_out e (fst st, w1) in
      if cl then conn_close e 1000 (fst st, w2) else (fst st, w2))"

text \<open>
  The timeout loop; \<^verbatim>\<open>size()\<close> is at most the capacity, so that counting the index up to the
  capacity and stopping at \<^verbatim>\<open>size()\<close> is the loop of the source.
\<close>

fun timeout_loop :: "'k Server Env \<Rightarrow> nat list \<Rightarrow> 'k Server \<Rightarrow> 'k Server outcome" where
  "timeout_loop e [] s = Some (Inr s)"
| "timeout_loop e (i # is) s =
     (if i \<ge> fv_size (connections s) then Some (Inr s)
      else case fv_at (connections s) i of
        None \<Rightarrow> Some (Inl OutOfBounds)
      | Some c \<Rightarrow> timeout_loop e is (put_back i (enforce_timeout e (c, s))))"

text \<open>
  \<^verbatim>\<open>remove_closed_connections\<close> on the vector: the connections left, the removed ones in order
  of removal. Dropping the last owner runs the destructor.
\<close>

function remove_loop ::
    "('c \<Rightarrow> bool) \<Rightarrow> nat \<Rightarrow> 'c list \<Rightarrow> 'c FixedVector \<Rightarrow> ('c list \<times> 'c FixedVector) option" where
  "remove_loop closed i removed v =
     (if i < fv_size v then
        (case fv_at v i of
           None \<Rightarrow> None
         | Some c \<Rightarrow>
             if closed c then
               (if i < fv_size v - 1 then
                  (case fv_at v (fv_size v - 1) of
                     None \<Rightarrow> None
                   | Some l \<Rightarrow> remove_loop closed i (removed @ [c]) (snd (fv_pop_back (fv_set i l v))))
                else remove_loop closed i (removed @ [c]) (snd (fv_pop_back v)))
             else remove_loop closed (i + 1) removed v)
      else Some (removed, v))"
  by pat_completeness auto
termination
  by (relation "measure (\<lambda>(closed, i, removed, v). fv_size v - i)")
     (auto simp: fv_pop_back_def fv_set_def)

declare remove_loop.simps [simp del]

definition release_connection :: "'k Os \<Rightarrow> 'k Callbacks \<Rightarrow> Connection \<Rightarrow> 'k Server \<Rightarrow> 'k Server" where
  "release_connection os cb c s =
     (if os_last_owner os c (outside s) then snd (Connection_dtor (conn_env os cb) (c, s)) else s)"

text \<open>The destructor closes the listening socket; then the vector is destroyed from its end.\<close>

definition Server_dtor :: "'k Os \<Rightarrow> 'k Callbacks \<Rightarrow> 'k Server \<Rightarrow> 'k Server" where
  "Server_dtor os cb s =
     (let s1 = (if server_sock s \<ge> 0 then change_outside (os_close_fd os (server_sock s)) s else s)
      in fold (release_connection os cb) (rev (fv_list (connections s1))) s1)"

definition remove_closed_connections :: "'k Os \<Rightarrow> 'k Callbacks \<Rightarrow> 'k Server \<Rightarrow> 'k Server outcome" where
  "remove_closed_connections os cb s =
     (case remove_loop (is_closed (conn_env os cb)) 0 [] (connections s) of
        None \<Rightarrow> Some (Inl OutOfBounds)
      | Some (removed, v) \<Rightarrow>
          let s1 = fold (release_connection os cb) removed s;
              s2 = s1\<lparr>connections := v\<rparr>
          in Some (Inr (if length removed > 0
               then count_stat (\<lambda>t. t\<lparr>active_connections :=
                      active_connections t - word_of_nat (length removed)\<rparr>) s2
               else s2)))"

datatype 'k iteration = Stop "'k Server" | Again "'k Server"

text \<open>The first part of an iteration: polling, and the latency counters.\<close>

definition poll_phase :: "'k Os \<Rightarrow> 'k Callbacks \<Rightarrow> 'k Server \<Rightarrow> int \<times> u16 list \<times> 'k Server" where
  "poll_phase os cb s =
     (let (t0, s1) = env_now (conn_env os cb) s;
          ((ret, revents), s2) = on_outside (os_poll os (build_poll_fds s) (poll_timeout_ms s1)) s1;
          (t1, s3) = env_now (conn_env os cb) s2
      in (ret, revents, count_stat (record_latency (poll_us t0 t1)) s3))"

definition accept_ready :: "u16 list \<Rightarrow> bool" where
  "accept_ready revents \<longleftrightarrow> (if 0 < length revents then revents ! 0 else 0) AND POLLIN \<noteq> 0"

definition run_iteration :: "'k Os \<Rightarrow> 'k Callbacks \<Rightarrow> 'k Server \<Rightarrow> 'k iteration outcome" where
  "run_iteration os cb s =
     (case poll_phase os cb s of (ret, revents, s4) \<Rightarrow>
      if ret < 0 then Some (Inr (Stop s4))
      else if ret = 0 then Some (Inr (Again s4))
      else let s5 = (if accept_ready revents then handle_accept os cb s4 else s4)
      in case io_loop (conn_env os cb) revents [0..<length (build_poll_fds s) - 1] s5 of
           None \<Rightarrow> None | Some (Inl f) \<Rightarrow> Some (Inl f)
         | Some (Inr s6) \<Rightarrow>
        (case timeout_loop (conn_env os cb) [0..<fv_capacity (connections s6)] s6 of
           None \<Rightarrow> None | Some (Inl f) \<Rightarrow> Some (Inl f)
         | Some (Inr s7) \<Rightarrow>
        (case remove_closed_connections os cb s7 of
           None \<Rightarrow> None | Some (Inl f) \<Rightarrow> Some (Inl f)
         | Some (Inr s8) \<Rightarrow> Some (Inr (Again s8)))))"

text \<open>\<^verbatim>\<open>run\<close>: \<^const>\<open>None\<close> when the reactor runs forever.\<close>

partial_function (option) run_loop :: "'k Os \<Rightarrow> 'k Callbacks \<Rightarrow> 'k Server \<Rightarrow> 'k Server outcome" where
  "run_loop os cb s =
     (if is_running s then
        (case run_iteration os cb s of
           None \<Rightarrow> None
         | Some r \<Rightarrow> (case r of
             Inl f \<Rightarrow> Some (Inl f)
           | Inr it \<Rightarrow> (case it of Stop s' \<Rightarrow> Some (Inr s') | Again s' \<Rightarrow> run_loop os cb s')))
      else Some (Inr s))"

definition run :: "'k Os \<Rightarrow> 'k Callbacks \<Rightarrow> 'k Server \<Rightarrow> 'k Server outcome" where
  "run os cb s = run_loop os cb (reset_stats (s\<lparr>is_running := True\<rparr>))"

end
