(* ===== verification/Conn_World.thy ===== *)
theory Conn_World
  imports Conn_Machine
begin

text \<open>
  How the operations of a connection move the rest of the world: only through the environment.
  For every preorder that all calls of the operating system and all callbacks respect, every
  operation of the connection respects it.
\<close>

definition cb_moves :: "('w \<Rightarrow> 'w \<Rightarrow> bool) \<Rightarrow> ('w st \<Rightarrow> 'w st) \<Rightarrow> bool" where
  "cb_moves R f \<longleftrightarrow> (\<forall>st. R (snd st) (snd (f st)))"

definition sys_moves :: "('w \<Rightarrow> 'w \<Rightarrow> bool) \<Rightarrow> 'w Env \<Rightarrow> bool" where
  "sys_moves R e \<longleftrightarrow>
     (\<forall>w. R w (snd (env_now e w))) \<and> (\<forall>fd ls w. R w (snd (env_readv e fd ls w))) \<and>
     (\<forall>fd bs w. R w (snd (env_writev e fd bs w))) \<and> (\<forall>fd bs w. R w (snd (env_write e fd bs w))) \<and>
     (\<forall>fd w. R w (env_set_non_blocking e fd w)) \<and> (\<forall>fd w. R w (snd (env_close e fd w)))"

definition cbs_move :: "('w \<Rightarrow> 'w \<Rightarrow> bool) \<Rightarrow> 'w Env \<Rightarrow> bool" where
  "cbs_move R e \<longleftrightarrow>
     (\<forall>f. on_open e = Some f \<longrightarrow> cb_moves R f) \<and>
     (\<forall>f m. on_message e = Some f \<longrightarrow> cb_moves R (f m)) \<and>
     (\<forall>f b. on_close e = Some f \<longrightarrow> cb_moves R (f b)) \<and>
     (\<forall>f. on_backpressure e = Some f \<longrightarrow> cb_moves R f) \<and>
     (\<forall>f. on_drain e = Some f \<longrightarrow> cb_moves R f)"

definition env_moves :: "('w \<Rightarrow> 'w \<Rightarrow> bool) \<Rightarrow> 'w Env \<Rightarrow> bool" where
  "env_moves R e \<longleftrightarrow> reflp R \<and> transp R \<and> sys_moves R e \<and> cbs_move R e"

lemma env_movesD:
  assumes "env_moves R e"
  shows "R w w"
    and "R a b \<Longrightarrow> R b c \<Longrightarrow> R a c"
    and "R w (snd (env_now e w))" and "R w (snd (env_readv e fd ls w))"
    and "R w (snd (env_writev e fd bs w))" and "R w (snd (env_write e fd bs w))"
    and "R w (env_set_non_blocking e fd w)" and "R w (snd (env_close e fd w))"
    and "on_open e = Some f \<Longrightarrow> cb_moves R f" and "on_message e = Some g \<Longrightarrow> cb_moves R (g m)"
    and "on_close e = Some k \<Longrightarrow> cb_moves R (k z)" and "on_backpressure e = Some f \<Longrightarrow> cb_moves R f"
    and "on_drain e = Some f \<Longrightarrow> cb_moves R f"
proof -
  have R: "reflp R" "transp R" and sys: "sys_moves R e" and cbs: "cbs_move R e"
    using assms by (simp_all add: env_moves_def)
  from R(1) show "R w w" by (rule reflpD)
  from R(2) show "R a b \<Longrightarrow> R b c \<Longrightarrow> R a c" by (rule transpD)
qed (use assms in \<open>auto simp: env_moves_def sys_moves_def cbs_move_def\<close>)

lemma call_opt_moves:
  "env_moves R e \<Longrightarrow> (\<And>f. g = Some f \<Longrightarrow> cb_moves R f) \<Longrightarrow> R (snd st) (snd (call_opt g st))"
  by (cases g; cases st) (auto simp: call_opt_def cb_moves_def env_movesD(1))

lemma call_on_close_moves:
  "env_moves R e \<Longrightarrow> R (snd st) (snd (call_opt (map_option (\<lambda>f. f b) (on_close e)) st))"
  by (rule call_opt_moves) (auto dest: env_movesD(11))

lemma close_socket_moves: "env_moves R e \<Longrightarrow> R (snd st) (snd (close_socket e st))"
  using env_movesD(8) [of R e "snd st" "conn_socket (fst st)"]
  by (cases st) (auto simp: close_socket_def split: prod.splits)

lemma transition_moves:
  assumes "env_moves R e" shows "R (snd st) (snd (transition_to_state e s st))"
proof (cases st)
  case (Pair c w)
  show ?thesis
  proof (cases s)
    case kHandshaking
    then show ?thesis using Pair env_movesD(1) [OF assms] by simp
  next
    case kOpen
    then show ?thesis
      using Pair call_opt_moves [OF assms env_movesD(9) [OF assms], of "on_open e" "(c\<lparr>conn_ops := kOpen\<rparr>, w)"]
      by simp
  next
    case kClosing
    then show ?thesis using Pair env_movesD(3) [OF assms, of w]
      by (cases "env_now e w") simp
  next
    case kClosed
    then show ?thesis using Pair call_on_close_moves [OF assms, of "(c\<lparr>conn_ops := kClosed\<rparr>, w)" True]
      by simp
  qed
qed

lemma high_watermark_moves:
  assumes "env_moves R e" shows "R (snd st) (snd (check_high_watermark e st))"
proof (cases st)
  case (Pair c w)
  then show ?thesis using env_movesD(1) [OF assms, of w]
      call_opt_moves [OF assms env_movesD(12) [OF assms], of "on_backpressure e" "(c\<lparr>write_paused := True\<rparr>, w)"]
    by (simp add: check_high_watermark_def)
qed

lemma low_watermark_moves:
  assumes "env_moves R e" shows "R (snd st) (snd (check_low_watermark e st))"
proof (cases st)
  case (Pair c w)
  then show ?thesis using env_movesD(1) [OF assms, of w]
      call_opt_moves [OF assms env_movesD(13) [OF assms], of "on_drain e" "(c\<lparr>write_paused := False\<rparr>, w)"]
    by (simp add: check_low_watermark_def)
qed

lemma send_impl_moves:
  assumes "env_moves R e" shows "R (snd st) (snd (send_impl e p b st))"
proof (cases st)
  case (Pair c w)
  have "R w (snd (check_high_watermark e (c', w)))" for c'
    using high_watermark_moves [OF assms, of "(c', w)"] by simp
  with Pair env_movesD(1) [OF assms] show ?thesis by (simp add: send_impl_def Let_def)
qed

lemma conn_close_moves:
  assumes "env_moves R e"
  shows "R (snd st) (snd (conn_close e code st))"
proof -
  obtain c w where st: "st = (c, w)" by fastforce
  have "R w (snd (close_socket e (transition_to_state e kClosed (c, w))))"
    using transition_moves [OF assms, of "(c, w)" kClosed, unfolded snd_conv]
      close_socket_moves [OF assms, of "transition_to_state e kClosed (c, w)"]
    by (rule env_movesD(2) [OF assms])
  moreover have "R w (snd (transition_to_state e kClosing (write_close_frame code c, w)))"
    using transition_moves [OF assms, of "(write_close_frame code c, w)" kClosing] by simp
  ultimately show ?thesis using env_movesD(1) [OF assms] st
    by (simp add: conn_close_def del: transition_to_state.simps)
qed

lemma peer_close_moves:
  assumes "env_moves R e"
  shows "R (snd st) (snd (close_socket e (transition_to_state e kClosed
           (call_opt (map_option (\<lambda>f. f False) (on_close e)) st))))"
  by (rule env_movesD(2) [OF assms env_movesD(2) [OF assms call_on_close_moves transition_moves]
        close_socket_moves]) (rule assms)+

lemma parse_frames_body_moves:
  assumes "env_moves R e" and "parse_frames_body e st = Next st'"
  shows "R (snd st) (snd st')"
proof -
  obtain c w where st: "st = (c, w)" by fastforce
  obtain n st1 where st': "st' = consume_rx n st1"
    and st1: "st1 = (c, w) \<or> (\<exists>f p. on_message e = Some f \<and> st1 = f p (c, w)) \<or>
       (\<exists>p. st1 = (write_frame p kPong c, w))"
    using parse_frames_body_Next [OF assms(2) [unfolded st]] by blast
  have "R w (snd (f p (c, w)))" if "on_message e = Some f" for f p
    using env_movesD(10) [OF assms(1) that, of p] by (simp add: cb_moves_def)
  with st1 env_movesD(1) [OF assms(1)] have "R w (snd st1)" by (elim disjE exE conjE) simp_all
  then show ?thesis using st st' by (simp add: consume_rx_def)
qed

lemma parse_frames_moves:
  assumes "parse_frames e st = Some (Inr st')" and "env_moves R e"
  shows "R (snd st) (snd st')"
proof -
  have "env_moves R e \<longrightarrow> (case r of Inl _ \<Rightarrow> True | Inr st' \<Rightarrow> R (snd st) (snd st'))"
    if "parse_frames e st = Some r" for r
  proof (rule parse_frames.raw_induct [OF _ that])
    fix pf :: "'a Env \<Rightarrow> 'a st \<Rightarrow> 'a st outcome" and e st r
    assume IH: "\<And>e st r. pf e st = Some r \<Longrightarrow> env_moves R e \<longrightarrow>
        (case r of Inl _ \<Rightarrow> True | Inr st' \<Rightarrow> R (snd st) (snd st'))"
      and run: "(case parse_frames_body e st of Break \<Rightarrow> Some (Inr st) | Return st' \<Rightarrow> Some (Inr st')
        | Next st' \<Rightarrow> pf e st' | Fault \<Rightarrow> Some (Inl OutOfBounds)) = Some r"
    show "env_moves R e \<longrightarrow> (case r of Inl _ \<Rightarrow> True | Inr st' \<Rightarrow> R (snd st) (snd st'))"
    proof (cases "parse_frames_body e st")
      case (Return st1)
      with run parse_frames_body_Return [OF Return] peer_close_moves [of R e st] show ?thesis by auto
    next
      case (Next st1)
      have "R (snd st) (snd st')" if "env_moves R e" "R (snd st1) (snd st')" for st'
        using parse_frames_body_moves [OF that(1) Next] that(2) by (rule env_movesD(2) [OF that(1)])
      with IH [of e st1 r] run Next show ?thesis by (auto split: sum.splits)
    qed (use run env_movesD(1) [of R e] in auto)
  qed
  from this [OF assms(1)] assms(2) show ?thesis by simp
qed

lemma on_data_moves:
  assumes "env_moves R e"
    and "ops_on_data (ops_table (conn_ops (fst st))) e st = Some (Inr (res, st'))"
  shows "R (snd st) (snd st')"
proof (cases st)
  case (Pair c w)
  have open_case: "R w (snd st')" if "open_on_data e st = Some (Inr (res, st'))"
    using that parse_frames_moves [of e st st' R] assms(1) Pair
    by (auto simp: open_on_data_def split: option.splits sum.splits)
  have tr: "R w (snd (transition_to_state e s (c', w)))" for s c'
    using transition_moves [OF assms(1), of "(c', w)"] by simp
  have "R w (snd (close_socket e (transition_to_state e kClosed (c, w))))"
    using tr close_socket_moves [OF assms(1)] by (rule env_movesD(2) [OF assms(1)])
  with assms open_case tr env_movesD(1) [OF assms(1), of w] Pair show ?thesis
    by (cases "conn_ops c")
       (auto simp: kHandshakeOps_def kOpenOps_def kClosingOps_def kClosedOps_def closed_on_data_def
          handshake_on_data_def closing_on_data_def Let_def
          simp del: transition_to_state.simps split: prod.splits if_splits)
qed

lemma handle_read_moves:
  assumes mv: "env_moves R e" and read: "handle_read e st = Some (Inr (res, st'))"
  shows "R (snd st) (snd st')"
proof -
  obtain c w where st: "st = (c, w)" by fastforce
  from read [unfolded st] show ?thesis
  proof (cases rule: handle_read_cases)
    case full
    then show ?thesis using env_movesD(1) [OF mv] st by (simp add: set_error_def)
  next
    case (idle fd ls r w1 code)
    then show ?thesis using env_movesD(4) [OF mv, of w fd ls] st by (simp add: set_error_def)
  next
    case (got fd ls bs w1 r2 st1 st2)
    have "R w w1" using env_movesD(4) [OF mv, of w fd ls] got(1) by simp
    moreover have "R w1 (snd st1)" using env_movesD(3) [OF mv, of w1] got(2)
      by (cases "env_now e w1") (simp add: touch_activity_def)
    moreover have "R (snd st1) (snd st')"
      using on_data_moves [OF mv got(3)] got(4) by (simp add: set_error_def)
    ultimately show ?thesis using st env_movesD(2) [OF mv] unfolding st snd_conv by blast
  qed
qed

lemma handle_write_moves:
  assumes "env_moves R e" shows "R (snd st) (snd (snd (handle_write e st)))"
proof (cases st)
  case (Pair c w)
  have low: "R w (snd (check_low_watermark e (c', w1)))" if "env_write e fd bs w = (r, w1)" for c' w1 fd bs r
    using env_movesD(2) [OF assms env_movesD(6) [OF assms, of w fd bs]]
      low_watermark_moves [OF assms, of "(c', w1)"] that by simp
  have "R w w1" if "env_write e fd bs w = (r, w1)" for w1 fd bs r
    using env_movesD(6) [OF assms, of w fd bs] that by simp
  with low Pair env_movesD(1) [OF assms] show ?thesis
    by (auto simp: handle_write_def set_error_def split: prod.split WriteResult.split)
qed

lemma handle_write_vectored_moves:
  assumes "env_moves R e" shows "R (snd st) (snd (snd (handle_write_vectored e st)))"
proof (cases st)
  case (Pair c w)
  have low: "R w (snd (check_low_watermark e (c', w1)))" if "env_writev e fd bs w = (r, w1)" for c' w1 fd bs r
    using env_movesD(2) [OF assms env_movesD(5) [OF assms, of w fd bs]]
      low_watermark_moves [OF assms, of "(c', w1)"] that by simp
  have "R w w1" if "env_writev e fd bs w = (r, w1)" for w1 fd bs r
    using env_movesD(5) [OF assms, of w fd bs] that by simp
  with low Pair env_movesD(1) [OF assms] show ?thesis
    by (auto simp: handle_write_vectored_def Let_def set_error_def split: prod.split WriteResult.split)
qed

end
