(* ===== verification/Reactor.thy ===== *)
theory Reactor
  imports Server Conn_World
begin

text \<open>
  Proofs about the reactor of theory \<open>Server\<close>: the loops over the connection vector, the
  invariant of the server, and what one iteration does to the set of connections.
\<close>

section \<open>Removing closed connections\<close>

lemma remove_loop_step:
  assumes "fv_inv v"
  shows "remove_loop closed i removed v =
    (if i < fv_size v then
       (if closed (fv_list v ! i)
        then remove_loop closed i (removed @ [fv_list v ! i]) (fvv.swap_pop i v)
        else remove_loop closed (Suc i) removed v)
     else Some (removed, v))"
proof -
  have "last (fv_list v) = fv_list v ! (fv_size v - 1)" if "i < fv_size v"
    using that assms fv_list_length [OF assms] by (subst last_conv_nth) fastforce+
  then show ?thesis using assms
    by (subst remove_loop.simps) (auto simp: fv_at_list fvv.swap_pop_def)
qed

lemma fv_swap_pop:
  assumes "fv_inv v" and "i < fv_size v"
  shows "fv_inv (fvv.swap_pop i v)" "fv_capacity (fvv.swap_pop i v) = fv_capacity v"
    "fv_size (fvv.swap_pop i v) = fv_size v - 1"
    "take i (fv_list (fvv.swap_pop i v)) = take i (fv_list v)"
    "add_mset (fv_list v ! i) (mset (fv_list (fvv.swap_pop i v))) = mset (fv_list v)"
proof -
  have i: "i < length (fv_list v)" using assms by simp
  from fvv.swap_pop_keeps [OF assms(1) i]
  show inv: "fv_inv (fvv.swap_pop i v)" and "fv_capacity (fvv.swap_pop i v) = fv_capacity v" by simp_all
  from fvv.swap_pop_elems [OF assms(1) i] inv assms(1)
  show "fv_size (fvv.swap_pop i v) = fv_size v - 1"
    and "take i (fv_list (fvv.swap_pop i v)) = take i (fv_list v)" by simp_all
  from fvv.swap_pop_mset [OF assms(1) i] i
  show "add_mset (fv_list v ! i) (mset (fv_list (fvv.swap_pop i v))) = mset (fv_list v)"
    by (simp add: insert_DiffM)
qed

text \<open>
  The loop splits the vector into the removed and the kept connections: nothing is lost or
  duplicated, every removed one is closed and no kept one is.
\<close>

lemma remove_loop_spec:
  assumes "fv_inv v" and "i \<le> fv_size v" and "\<forall>c \<in> set (take i (fv_list v)). \<not> closed c"
  shows "\<exists>removed v'. remove_loop closed i acc v = Some (acc @ removed, v') \<and> fv_inv v' \<and>
    fv_capacity v' = fv_capacity v \<and> mset (fv_list v) = mset removed + mset (fv_list v') \<and>
    (\<forall>c \<in> set removed. closed c) \<and> (\<forall>c \<in> set (fv_list v'). \<not> closed c)"
  using assms
proof (induction "fv_size v - i" arbitrary: i acc v rule: less_induct)
  case less
  note step = remove_loop_step [OF less.prems(1), of closed i acc]
  show ?case
  proof (cases "i < fv_size v")
    case False
    then have "take i (fv_list v) = fv_list v" using less.prems by simp
    with False less.prems step show ?thesis by auto
  next
    case True
    let ?c = "fv_list v ! i"
    show ?thesis
    proof (cases "closed ?c")
      case False
      have "take (Suc i) (fv_list v) = take i (fv_list v) @ [?c]"
        using True less.prems(1) by (simp add: take_Suc_conv_app_nth)
      with False less.prems(3) have "\<forall>c \<in> set (take (Suc i) (fv_list v)). \<not> closed c" by auto
      with less.hyps [of v "Suc i" acc] less.prems(1) True False step show ?thesis by simp
    next
      case closed: True
      note sp = fv_swap_pop [OF less.prems(1) True]
      have bound: "fv_size v - Suc i < fv_size v - i" "i \<le> fv_size v - Suc 0" using True by simp_all
      obtain rem v' where "remove_loop closed i (acc @ [?c]) (fvv.swap_pop i v) = Some ((acc @ [?c]) @ rem, v')"
        "fv_inv v'" "fv_capacity v' = fv_capacity v"
        "mset (fv_list (fvv.swap_pop i v)) = mset rem + mset (fv_list v')"
        "\<forall>c \<in> set rem. closed c" "\<forall>c \<in> set (fv_list v'). \<not> closed c"
        using less.hyps [of "fvv.swap_pop i v" i "acc @ [?c]"] sp bound less.prems(3) by auto
      with closed True step sp(5) show ?thesis
        by (intro exI [of _ "?c # rem"] exI [of _ v']) (simp add: sp(5) [symmetric])
    qed
  qed
qed

section \<open>The invariant of the server\<close>

definition server_inv :: "'k Server \<Rightarrow> bool" where
  "server_inv s \<longleftrightarrow> fv_inv (connections s) \<and> fv_capacity (connections s) = kMaxConnections \<and>
     (\<forall>c \<in> set (fv_list (connections s)). conn_inv c)"

text \<open>
  What a callback may do to the connections of the server: use the public interface of each of
  them. It cannot add or remove one.
\<close>

definition peers_evolve :: "'k Server Env \<Rightarrow> 'k Server \<Rightarrow> 'k Server \<Rightarrow> bool" where
  "peers_evolve e s s' \<longleftrightarrow>
     fv_size (connections s') = fv_size (connections s) \<and>
     list_all2 (rel_option (api_steps e)) (fv_storage (connections s)) (fv_storage (connections s'))"

definition server_callbacks :: "'k Os \<Rightarrow> 'k Callbacks \<Rightarrow> bool" where
  "server_callbacks os cb \<longleftrightarrow>
     user_callbacks (conn_env os cb) \<and> cbs_move (peers_evolve (conn_env os cb)) (conn_env os cb)"

lemma peers_refl: "peers_evolve e s s"
  by (auto simp: peers_evolve_def intro!: list_all2_refl option.rel_refl)

lemma peers_trans: "peers_evolve e a b \<Longrightarrow> peers_evolve e b c \<Longrightarrow> peers_evolve e a c"
proof -
  have "rel_option (api_steps e) x z" if "rel_option (api_steps e) x y" "rel_option (api_steps e) y z" for x y z
    using that by (cases x; cases y; cases z) (auto intro: rtranclp_trans)
  then show "peers_evolve e a b \<Longrightarrow> peers_evolve e b c \<Longrightarrow> peers_evolve e a c"
    unfolding peers_evolve_def by (auto intro: list_all2_trans)
qed

lemma peers_outside: "peers_evolve e s (s\<lparr>outside := k\<rparr>)"
  using peers_refl [of e s] by (simp add: peers_evolve_def)

lemma sys_moves_peers: "sys_moves (peers_evolve e) (conn_env os cb)"
  by (auto simp: sys_moves_def conn_env_def on_outside_def change_outside_def peers_outside
      split: prod.split)

lemma env_moves_peers:
  assumes "server_callbacks os cb"
  shows "env_moves (peers_evolve (conn_env os cb)) (conn_env os cb)"
  using assms sys_moves_peers peers_refl peers_trans
  unfolding env_moves_def server_callbacks_def reflp_def transp_def by blast

lemma peers_inv:
  assumes "peers_evolve e s s'" and "server_inv s"
  shows "server_inv s'"
proof -
  let ?v = "connections s" and ?v' = "connections s'"
  have size: "fv_size ?v' = fv_size ?v"
    and all: "list_all2 (rel_option (api_steps e)) (fv_storage ?v) (fv_storage ?v')"
    using assms(1) by (simp_all add: peers_evolve_def)
  have inv: "fv_inv ?v" "fv_capacity ?v = kMaxConnections" using assms(2) by (simp_all add: server_inv_def)
  have len: "fv_capacity ?v' = fv_capacity ?v"
    using all by (simp add: fv_capacity_def list_all2_lengthD)
  have rel: "rel_option (api_steps e) (fv_storage ?v ! i) (fv_storage ?v' ! i)" if "i < fv_capacity ?v" for i
    using all that by (simp add: fv_capacity_def list_all2_nthD)
  have occ: "fv_storage ?v' ! i \<noteq> None \<longleftrightarrow> i < fv_size ?v" if "i < fv_capacity ?v" for i
    using rel [OF that] inv(1) that by (cases "fv_storage ?v ! i"; cases "fv_storage ?v' ! i") (auto simp: fv_inv_def)
  have inv': "fv_inv ?v'" using inv(1) size len occ by (simp add: fv_inv_def)
  have "conn_inv (fv_list ?v' ! i)" if i: "i < fv_size ?v" for i
  proof -
    have cap: "i < fv_capacity ?v" using i inv(1) by (simp add: fv_inv_def)
    have "fv_at ?v i = Some (fv_list ?v ! i)" "fv_at ?v' i = Some (fv_list ?v' ! i)"
      using i size fv_at_list [OF inv(1)] fv_at_list [OF inv'] by simp_all
    with rel [OF cap] cap len have "api_steps e (fv_list ?v ! i) (fv_list ?v' ! i)"
      by (simp add: fv_at_def)
    moreover have "conn_inv (fv_list ?v ! i)" using assms(2) i inv(1) by (simp add: server_inv_def)
    ultimately show ?thesis using api_conn_steps conn_steps_inv by blast
  qed
  then show ?thesis using inv(2) inv' len size by (simp add: server_inv_def all_set_conv_all_nth)
qed

lemma put_back_inv:
  assumes "server_inv s" and "conn_inv c" and "i < fv_size (connections s)"
  shows "server_inv (put_back i (c, s))"
  using assms set_update_subset_insert [of "fv_list (connections s)" i c]
  by (auto simp: server_inv_def put_back_def fv_set_inv fv_set_list)

lemma server_inv_cong:
  "connections s' = connections s \<Longrightarrow> server_inv s' \<longleftrightarrow> server_inv s"
  by (simp add: server_inv_def)

section \<open>One connection\<close>

text \<open>The connection makes steps and the rest of the world moves along \<open>R\<close>.\<close>

definition moved :: "'w Env \<Rightarrow> ('w \<Rightarrow> 'w \<Rightarrow> bool) \<Rightarrow> 'w st \<Rightarrow> 'w st \<Rightarrow> bool" where
  "moved e R st st' \<longleftrightarrow> conn_steps e (fst st) (fst st') \<and> R (snd st) (snd st')"

lemma moved_refl: "env_moves R e \<Longrightarrow> moved e R st st"
  by (simp add: moved_def env_movesD(1))

lemma moved_trans: "env_moves R e \<Longrightarrow> moved e R a b \<Longrightarrow> moved e R b c \<Longrightarrow> moved e R a c"
  using env_movesD(2) [of R e] by (auto simp: moved_def intro: rtranclp_trans)

lemma conn_close_moved: "user_callbacks e \<Longrightarrow> env_moves R e \<Longrightarrow> moved e R st (conn_close e code st)"
  by (simp add: moved_def conn_close_api api_conn_steps conn_close_moves)

lemma close_if_error_moved:
  assumes "user_callbacks e" and "env_moves R e" and "moved e R st (snd r)"
  shows "moved e R st (close_if_error e r)"
  using moved_trans [OF assms(2,3) conn_close_moved [OF assms(1,2)]] assms(3)
  by (simp add: close_if_error_def)

lemma io_read_moved:
  assumes cb: "user_callbacks e" and mv: "env_moves R e" and "io_read e revents st = Some (Inr st')"
  shows "moved e R st st'"
proof -
  have "moved e R st (close_if_error e (res, st1))" if "handle_read e st = Some (Inr (res, st1))" for res st1
    using handle_read_steps [OF cb that] handle_read_moves [OF mv that]
    by (intro close_if_error_moved [OF cb mv]) (simp add: moved_def)
  then show ?thesis using assms(3) moved_refl [OF mv, of st]
    by (auto simp: io_read_def split: if_splits option.splits sum.splits)
qed

lemma io_write_moved:
  assumes cb: "user_callbacks e" and mv: "env_moves R e"
  shows "moved e R st (io_write e revents st)"
proof -
  have "moved e R st (snd (handle_write_vectored e st))" "moved e R st (snd (handle_write e st))"
    using handle_write_vectored_steps [OF cb] handle_write_vectored_moves [OF mv]
      handle_write_steps [OF cb] handle_write_moves [OF mv] by (simp_all add: moved_def)
  then show ?thesis using moved_refl [OF mv, of st]
    by (simp add: io_write_def close_if_error_moved [OF cb mv])
qed

lemma io_hangup_moved:
  "user_callbacks e \<Longrightarrow> env_moves R e \<Longrightarrow> moved e R st (io_hangup e revents st)"
  by (simp add: io_hangup_def moved_refl conn_close_moved)

lemma handle_connection_io_moved:
  assumes cb: "user_callbacks e" and mv: "env_moves R e"
    and io: "handle_connection_io e revents st = Some (Inr st')"
  shows "moved e R st st'"
proof -
  obtain st1 where st1: "io_read e revents st = Some (Inr st1)"
    and st': "st' = io_hangup e revents (io_write e revents st1)"
    using io by (auto simp: handle_connection_io_def split: option.splits sum.splits)
  show ?thesis unfolding st'
    by (rule moved_trans [OF mv io_read_moved [OF cb mv st1]
          moved_trans [OF mv io_write_moved [OF cb mv] io_hangup_moved [OF cb mv]]])
qed

lemma enforce_timeout_moved:
  assumes cb: "user_callbacks e" and mv: "env_moves R e"
  shows "moved e R st (enforce_timeout e st)"
proof -
  obtain c w where st: "st = (c, w)" by fastforce
  obtain hs w1 where hs: "is_handshake_timed_out e (c, w) = (hs, w1)" by fastforce
  obtain cl w2 where cl: "is_close_timed_out e (c, w1) = (cl, w2)" by fastforce
  have "R w w1" using hs env_movesD(1,3) [OF mv, of w]
    by (cases "env_now e w") (auto simp: is_handshake_timed_out_def split: if_splits)
  moreover have "R w1 w2" using cl env_movesD(1,3) [OF mv, of w1]
    by (cases "env_now e w1") (auto simp: is_close_timed_out_def split: if_splits)
  ultimately have "moved e R (c, w) (c, w1)" "moved e R (c, w) (c, w2)"
    using env_movesD(2) [OF mv] by (auto simp: moved_def)
  then show ?thesis using moved_trans [OF mv _ conn_close_moved [OF cb mv]]
    by (simp add: enforce_timeout_def st hs cl)
qed

section \<open>The loops keep the invariant\<close>

lemma server_callbacksD:
  "server_callbacks os cb \<Longrightarrow> user_callbacks (conn_env os cb)"
  by (simp add: server_callbacks_def)

lemma moved_put_back:
  assumes mv: "moved e (peers_evolve e) (c, s) st"
    and inv: "server_inv s" and i: "fv_at (connections s) i = Some c"
  shows "server_inv (put_back i st)" and "fv_size (connections (put_back i st)) = fv_size (connections s)"
proof -
  have fv: "fv_inv (connections s)" using inv by (simp add: server_inv_def)
  have i': "i < fv_size (connections s)" "c = fv_list (connections s) ! i"
    using i fv_at_list [OF fv] by (auto split: if_splits)
  then have "conn_inv c" using inv fv by (simp add: server_inv_def)
  then have "conn_inv (fst st)" using mv conn_steps_inv by (auto simp: moved_def)
  moreover have "server_inv (snd st)" using mv inv peers_inv by (auto simp: moved_def)
  moreover have sz: "fv_size (connections (snd st)) = fv_size (connections s)"
    using mv by (simp add: moved_def peers_evolve_def)
  ultimately show "server_inv (put_back i st)"
    using put_back_inv [of "snd st" "fst st" i] i' by simp
  show "fv_size (connections (put_back i st)) = fv_size (connections s)"
    using sz by (simp add: put_back_def)
qed

lemma io_loop_inv:
  assumes cb: "server_callbacks os cb" and "e = conn_env os cb"
    and "server_inv s" and "io_loop e revents is s = Some (Inr s')"
  shows "server_inv s' \<and> fv_size (connections s') = fv_size (connections s)"
  using assms(3,4)
proof (induction "is" arbitrary: s)
  case (Cons i "is")
  show ?case
  proof (cases "i < fv_size (connections s)")
    case True
    have "fv_inv (connections s)" using Cons.prems(1) by (simp add: server_inv_def)
    from fv_at_list [OF this] True obtain c where c: "fv_at (connections s) i = Some c" by auto
    obtain st where io: "handle_connection_io e (if i + 1 < length revents then revents ! (i + 1) else 0) (c, s)
        = Some (Inr st)" and rest: "io_loop e revents is (put_back i st) = Some (Inr s')"
      using Cons.prems(2) c True by (auto split: option.splits sum.splits)
    from handle_connection_io_moved [OF server_callbacksD [OF cb] env_moves_peers [OF cb] io [unfolded assms(2)]]
    have "moved e (peers_evolve e) (c, s) st" by (simp add: assms(2))
    from moved_put_back [OF this Cons.prems(1) c] Cons.IH [OF _ rest] show ?thesis by simp
  qed (use Cons.prems in simp)
qed simp

lemma timeout_loop_inv:
  assumes cb: "server_callbacks os cb" and "e = conn_env os cb" and "server_inv s"
  shows "\<exists>s'. timeout_loop e is s = Some (Inr s') \<and> server_inv s' \<and>
    fv_size (connections s') = fv_size (connections s)"
  using assms(3)
proof (induction "is" arbitrary: s)
  case (Cons i "is")
  show ?case
  proof (cases "i < fv_size (connections s)")
    case True
    have "fv_inv (connections s)" using Cons.prems(1) by (simp add: server_inv_def)
    from fv_at_list [OF this] True obtain c where c: "fv_at (connections s) i = Some c" by auto
    from enforce_timeout_moved [OF server_callbacksD [OF cb] env_moves_peers [OF cb]]
    have "moved e (peers_evolve e) (c, s) (enforce_timeout e (c, s))" by (simp add: assms(2))
    from moved_put_back [OF this Cons.prems(1) c] Cons.IH c True show ?thesis by force
  qed (use Cons.prems in simp)
qed simp

section \<open>Accepting and removing\<close>

lemma outside_fields [simp]:
  "connections (change_outside f s) = connections s" "stats (change_outside f s) = stats s"
  "connections (count_stat g s) = connections s" "stats (count_stat g s) = g (stats s)"
  by (simp_all add: change_outside_def count_stat_def)

lemma on_outside_fields:
  "on_outside f s = (x, s') \<Longrightarrow> connections s' = connections s \<and> stats s' = stats s \<and>
     max_connections s' = max_connections s \<and> is_running s' = is_running s"
  by (auto simp: on_outside_def split: prod.splits)

lemma apply_tcp_tuning_fields [simp]:
  "connections (apply_tcp_tuning os fd s) = connections s" "stats (apply_tcp_tuning os fd s) = stats s"
proof -
  have "connections (fold (\<lambda>(opt, v). change_outside (os_setsockopt os fd opt v)) opts s) = connections s \<and>
      stats (fold (\<lambda>(opt, v). change_outside (os_setsockopt os fd opt v)) opts s) = stats s" for opts
    by (induction opts arbitrary: s) auto
  then show "connections (apply_tcp_tuning os fd s) = connections s"
    "stats (apply_tcp_tuning os fd s) = stats s"
    by (simp_all add: apply_tcp_tuning_def Let_def)
qed

lemma ctor_outside:
  "Connection_ctor (conn_env os cb) sock nid s = (nid', c, s') \<Longrightarrow>
     conn_inv c \<and> conn_ops c = kHandshaking \<and> conn_socket c = sock \<and> conn_id c = nid \<and>
     connections s' = connections s \<and> stats s' = stats s"
  using ctor_inv [of "conn_env os cb" sock nid s]
  by (auto simp: Connection_ctor_def conn_env_def on_outside_def split: prod.splits)

text \<open>A connection is added only below both limits; otherwise the vector is untouched.\<close>

lemma accept_connection_cases:
  assumes "accept_connection os cb s = (res, s')"
  obtains (refused) "connections s' = connections s" "active_connections (stats s') = active_connections (stats s)"
  | (added) c where "word_of_nat (fv_size (connections s)) < max_connections s" "\<not> fv_full (connections s)"
      "conn_inv c" "conn_ops c = kHandshaking" "res = ok"
      "connections s' = snd (fv_push_back c (connections s))"
      "active_connections (stats s') = active_connections (stats s) + 1"
proof (cases "word_of_nat (fv_size (connections s)) \<ge> max_connections s \<or> fv_full (connections s)")
  case True
  with assms refused show ?thesis by (auto simp: accept_connection_def)
next
  case False
  obtain r s1 where acc: "on_outside (os_accept os (server_sock s)) s = (r, s1)" by fastforce
  note s1 = on_outside_fields [OF acc]
  show ?thesis
  proof (cases r)
    case (AcErr err)
    with assms False acc s1 refused show ?thesis
      by (auto simp: accept_connection_def split: if_splits)
  next
    case (AcOk sock)
    let ?s2 = "apply_tcp_tuning os sock (change_outside (os_set_non_blocking os sock) s1)"
    obtain nid c s3 where ct: "Connection_ctor (conn_env os cb) sock (next_conn_id ?s2) ?s2 = (nid, c, s3)"
      by (metis prod_cases3)
    note c = ctor_outside [OF ct]
    show ?thesis using assms False acc AcOk ct s1 c
      by (intro added [of c]) (auto simp: accept_connection_def Let_def)
  qed
qed

lemma push_connection_inv:
  assumes "server_inv s" and "conn_inv c" and "connections s' = snd (fv_push_back c (connections s))"
    and "\<not> fv_full (connections s)"
  shows "server_inv s'" and "fv_size (connections s') = Suc (fv_size (connections s))"
proof -
  have inv: "fv_inv (connections s)" and room: "fv_size (connections s) < fv_capacity (connections s)"
    using assms(1,4) by (simp_all add: server_inv_def fv_full_def)
  show "server_inv s'" using assms fvv.push_keeps [OF inv, of c] fvv.push_room [OF inv, of c] room inv
    by (auto simp: server_inv_def)
  show "fv_size (connections s') = Suc (fv_size (connections s))"
    using assms(3) room by (simp add: fv_push_back_def fv_emplace_back_def)
qed

lemma handle_accept_inv:
  assumes "server_inv s" shows "server_inv (handle_accept os cb s)"
proof (cases "is_overloaded (max_connections s) (stats s)")
  case True
  obtain r s2 where acc: "on_outside (os_accept os (server_sock s))
      (count_stat (\<lambda>t. t\<lparr>rejected_connections := rejected_connections t + 1\<rparr>) s) = (r, s2)" by fastforce
  have "server_sock (count_stat g s) = server_sock s" for g by (simp add: count_stat_def)
  with True acc on_outside_fields [OF acc] assms show ?thesis
    by (cases r) (auto simp: handle_accept_def Let_def server_inv_def)
next
  case False
  obtain res s' where acc: "accept_connection os cb s = (res, s')" by fastforce
  then show ?thesis
  proof (cases rule: accept_connection_cases)
    case refused
    then show ?thesis using assms False acc server_inv_cong by (auto simp: handle_accept_def)
  next
    case (added c)
    then show ?thesis using push_connection_inv(1) [OF assms added(3,6,2)] False acc
      by (simp add: handle_accept_def)
  qed
qed

lemma release_fields:
  "connections (release_connection os cb c s) = connections s \<and> stats (release_connection os cb c s) = stats s"
  by (auto simp: release_connection_def Connection_dtor_def close_socket_def conn_env_def on_outside_def
      split: prod.splits)

lemma fold_release_fields:
  "connections (fold (release_connection os cb) cs s) = connections s \<and>
   stats (fold (release_connection os cb) cs s) = stats s"
  by (induction cs arbitrary: s) (simp_all add: release_fields)

lemma remove_closed_spec:
  assumes "server_inv s"
  shows "\<exists>removed s'. remove_closed_connections os cb s = Some (Inr s') \<and> server_inv s' \<and>
    mset (fv_list (connections s)) = mset removed + mset (fv_list (connections s')) \<and>
    (\<forall>c \<in> set removed. is_closed (conn_env os cb) c) \<and>
    (\<forall>c \<in> set (fv_list (connections s')). \<not> is_closed (conn_env os cb) c) \<and>
    stats s' = (stats s)\<lparr>active_connections := active_connections (stats s) - word_of_nat (length removed)\<rparr>"
proof -
  have inv: "fv_inv (connections s)" using assms by (simp add: server_inv_def)
  obtain removed v' where
    loop: "remove_loop (is_closed (conn_env os cb)) 0 [] (connections s) = Some (removed, v')"
    and v': "fv_inv v'" "fv_capacity v' = fv_capacity (connections s)"
    and split: "mset (fv_list (connections s)) = mset removed + mset (fv_list v')"
    and cl: "\<forall>c \<in> set removed. is_closed (conn_env os cb) c"
      "\<forall>c \<in> set (fv_list v'). \<not> is_closed (conn_env os cb) c"
    using remove_loop_spec [OF inv, of 0 "is_closed (conn_env os cb)" "[]"] by auto
  have "set (fv_list v') \<subseteq> set (fv_list (connections s))"
    using split by (metis mset_subset_eq_add_right set_mset_mono set_mset_mset)
  then have "\<forall>c \<in> set (fv_list v'). conn_inv c" using assms by (auto simp: server_inv_def)
  then show ?thesis using assms v' loop split cl fold_release_fields [of os cb removed s]
    by (intro exI [of _ removed])
       (auto simp: remove_closed_connections_def Let_def server_inv_def count_stat_def)
qed

section \<open>Iterations\<close>

lemma poll_phase_fields:
  assumes "poll_phase os cb s = (ret, revents, s4)"
  shows "connections s4 = connections s" "active_connections (stats s4) = active_connections (stats s)"
    "max_connections s4 = max_connections s" "is_running s4 = is_running s"
  using assms
  by (auto simp: poll_phase_def conn_env_def count_stat_def record_latency_def Let_def
      split: prod.splits dest!: on_outside_fields)

text \<open>An iteration that serves events, cut into its four phases.\<close>

lemma run_iteration_phases:
  assumes "run_iteration os cb s = Some (Inr it)" and "server_callbacks os cb" and "server_inv s"
  obtains (stop) ret revents s4 where "poll_phase os cb s = (ret, revents, s4)" "ret < 0" "it = Stop s4"
  | (idle) revents s4 where "poll_phase os cb s = (0, revents, s4)" "it = Again s4"
  | (serve) ret revents s4 s5 s6 s7 s8 where "poll_phase os cb s = (ret, revents, s4)" "0 < ret"
      "s5 = (if accept_ready revents then handle_accept os cb s4 else s4)"
      "io_loop (conn_env os cb) revents [0..<length (build_poll_fds s) - 1] s5 = Some (Inr s6)"
      "timeout_loop (conn_env os cb) [0..<fv_capacity (connections s6)] s6 = Some (Inr s7)"
      "remove_closed_connections os cb s7 = Some (Inr s8)" "it = Again s8"
  using assms(1) unfolding run_iteration_def Let_def
  by (auto split: prod.splits if_splits option.splits sum.splits)

lemma run_iteration_inv:
  assumes run: "run_iteration os cb s = Some (Inr it)" and cb: "server_callbacks os cb"
    and inv: "server_inv s"
  shows "case it of Stop s' \<Rightarrow> server_inv s' | Again s' \<Rightarrow> server_inv s'"
  using run cb inv
proof (cases rule: run_iteration_phases)
  case (stop ret revents s4)
  then show ?thesis using poll_phase_fields(1) inv server_inv_cong by fastforce
next
  case (idle revents s4)
  then show ?thesis using poll_phase_fields(1) inv server_inv_cong by fastforce
next
  case (serve ret revents s4 s5 s6 s7 s8)
  have "server_inv s4" using poll_phase_fields(1) [OF serve(1)] inv server_inv_cong by blast
  then have "server_inv s5" using serve(3) handle_accept_inv by auto
  then have s6: "server_inv s6" using io_loop_inv [OF cb refl _ serve(4)] by blast
  have "server_inv s7"
    using timeout_loop_inv [OF cb refl s6, of "[0..<fv_capacity (connections s6)]"] serve(5) by auto
  then show ?thesis using remove_closed_spec [of s7 os cb] serve(6,7) by auto
qed

text \<open>The connections the I/O loop works on, each with the server as it is at that moment.\<close>

fun io_visits :: "'k Server Env \<Rightarrow> u16 list \<Rightarrow> nat list \<Rightarrow> 'k Server \<Rightarrow> 'k Server st list" where
  "io_visits e revents [] s = []"
| "io_visits e revents (i # is) s =
     (case fv_at (connections s) i of
        None \<Rightarrow> []
      | Some c \<Rightarrow> (c, s) #
          (case handle_connection_io e (if i + 1 < length revents then revents ! (i + 1) else 0) (c, s) of
             Some (Inr st) \<Rightarrow> io_visits e revents is (put_back i st)
           | _ \<Rightarrow> []))"

text \<open>
  The loop cannot leave the vector's bounds or get stuck by itself: it returns if reading from
  each of these connections does.
\<close>

lemma handle_connection_io_returns:
  "handle_read e st = Some (Inr r) \<Longrightarrow> \<exists>st'. handle_connection_io e rv st = Some (Inr st')"
  by (simp add: handle_connection_io_def io_read_def del: split_paired_Ex)

lemma io_loop_returns:
  assumes cb: "server_callbacks os cb" and "e = conn_env os cb" and "server_inv s"
    and "\<And>c s1. (c, s1) \<in> set (io_visits e revents is s) \<Longrightarrow> conn_inv c \<Longrightarrow> \<exists>r. handle_read e (c, s1) = Some (Inr r)"
  shows "\<exists>s'. io_loop e revents is s = Some (Inr s')"
  using assms(3,4)
proof (induction "is" arbitrary: s)
  case (Cons i "is")
  show ?case
  proof (cases "i < fv_size (connections s)")
    case True
    have fv: "fv_inv (connections s)" using Cons.prems(1) by (simp add: server_inv_def)
    from fv_at_list [OF this] True obtain c where c: "fv_at (connections s) i = Some c"
      and c_in: "c \<in> set (fv_list (connections s))" using nth_mem fv by fastforce
    let ?rv = "if i + 1 < length revents then revents ! (i + 1) else 0"
    have "conn_inv c" using c_in Cons.prems(1) by (simp add: server_inv_def)
    then obtain r where "handle_read e (c, s) = Some (Inr r)" using Cons.prems(2) [of c s] c by auto
    then obtain st where io: "handle_connection_io e ?rv (c, s) = Some (Inr st)"
      using handle_connection_io_returns by blast
    from handle_connection_io_moved [OF server_callbacksD [OF cb] env_moves_peers [OF cb] io [unfolded assms(2)]]
    have "moved e (peers_evolve e) (c, s) st" by (simp add: assms(2))
    note inv = moved_put_back(1) [OF this Cons.prems(1) c]
    have "io_visits e revents (i # is) s = (c, s) # io_visits e revents is (put_back i st)" using c io by simp
    then have "\<exists>s'. io_loop e revents is (put_back i st) = Some (Inr s')"
      using Cons.IH [OF inv] Cons.prems(2) by simp
    then show ?thesis using c io True by simp
  qed simp
qed simp

section \<open>The count of active connections\<close>

definition active_accurate :: "'k Server \<Rightarrow> bool" where
  "active_accurate s \<longleftrightarrow> active_connections (stats s) = word_of_nat (fv_size (connections s))"

text \<open>Callbacks that do not call \<^verbatim>\<open>reset_stats\<close>.\<close>

definition same_stats :: "'k Server \<Rightarrow> 'k Server \<Rightarrow> bool" where
  "same_stats s s' \<longleftrightarrow> stats s' = stats s"

lemma env_moves_stats:
  "cbs_move same_stats (conn_env os cb) \<Longrightarrow> env_moves same_stats (conn_env os cb)"
  by (auto simp: env_moves_def reflp_def transp_def same_stats_def sys_moves_def conn_env_def
      on_outside_def change_outside_def split: prod.split)

lemma put_back_stats [simp]: "stats (put_back i st) = stats (snd st)"
  by (simp add: put_back_def)

text \<open>What the environment and storing a connection respect, the loops over the connections respect.\<close>

lemma io_loop_moves:
  assumes cb: "user_callbacks e" and mv: "env_moves R e" and pb: "\<And>i st. R (snd st) (put_back i st)"
    and "io_loop e revents is s = Some (Inr s')"
  shows "R s s'"
  using assms(4)
proof (induction "is" arbitrary: s)
  case Nil
  then show ?case using env_movesD(1) [OF mv] by simp
next
  case (Cons i "is")
  show ?case
  proof (cases "i < fv_size (connections s)")
    case True
    with Cons.prems obtain c st where io: "handle_connection_io e (if i + 1 < length revents then revents ! (i + 1) else 0) (c, s)
        = Some (Inr st)" and rest: "io_loop e revents is (put_back i st) = Some (Inr s')"
      by (auto split: option.splits sum.splits)
    have "R s (snd st)" using handle_connection_io_moved [OF cb mv io] by (simp add: moved_def)
    with Cons.IH [OF rest] pb [of st i] env_movesD(2) [OF mv] show ?thesis by blast
  qed (use Cons.prems env_movesD(1) [OF mv] in simp)
qed

lemma timeout_loop_moves:
  assumes cb: "user_callbacks e" and mv: "env_moves R e" and pb: "\<And>i st. R (snd st) (put_back i st)"
    and "timeout_loop e is s = Some (Inr s')"
  shows "R s s'"
  using assms(4)
proof (induction "is" arbitrary: s)
  case Nil
  then show ?case using env_movesD(1) [OF mv] by simp
next
  case (Cons i "is")
  show ?case
  proof (cases "i < fv_size (connections s)")
    case True
    with Cons.prems obtain c where
      rest: "timeout_loop e is (put_back i (enforce_timeout e (c, s))) = Some (Inr s')"
      by (auto split: option.splits)
    have "R s (snd (enforce_timeout e (c, s)))" using enforce_timeout_moved [OF cb mv, of "(c, s)"] by (simp add: moved_def)
    with Cons.IH [OF rest] pb [of "enforce_timeout e (c, s)" i] env_movesD(2) [OF mv] show ?thesis by blast
  qed (use Cons.prems env_movesD(1) [OF mv] in simp)
qed

lemma io_loop_stats:
  "user_callbacks e \<Longrightarrow> env_moves same_stats e \<Longrightarrow> io_loop e revents is s = Some (Inr s') \<Longrightarrow> stats s' = stats s"
  using io_loop_moves [of e same_stats] by (simp add: same_stats_def)

lemma timeout_loop_stats:
  "user_callbacks e \<Longrightarrow> env_moves same_stats e \<Longrightarrow> timeout_loop e is s = Some (Inr s') \<Longrightarrow> stats s' = stats s"
  using timeout_loop_moves [of e same_stats] by (simp add: same_stats_def)

lemma handle_accept_accurate:
  assumes "active_accurate s" and "server_inv s"
  shows "active_accurate (handle_accept os cb s)"
proof (cases "is_overloaded (max_connections s) (stats s)")
  case True
  obtain r s2 where acc: "on_outside (os_accept os (server_sock s))
      (count_stat (\<lambda>t. t\<lparr>rejected_connections := rejected_connections t + 1\<rparr>) s) = (r, s2)" by fastforce
  have "server_sock (count_stat g s) = server_sock s" for g by (simp add: count_stat_def)
  with True acc on_outside_fields [OF acc] assms show ?thesis
    by (cases r) (auto simp: handle_accept_def Let_def active_accurate_def)
next
  case False
  obtain res s' where acc: "accept_connection os cb s = (res, s')" by fastforce
  then show ?thesis
  proof (cases rule: accept_connection_cases)
    case refused
    then show ?thesis using assms False acc by (simp add: handle_accept_def active_accurate_def)
  next
    case (added c)
    then show ?thesis using push_connection_inv(2) [OF assms(2) added(3,6,2)] False acc assms(1)
      by (simp add: handle_accept_def active_accurate_def)
  qed
qed

lemma remove_closed_accurate:
  assumes "active_accurate s" and "server_inv s" and "remove_closed_connections os cb s = Some (Inr s')"
  shows "active_accurate s'"
proof -
  obtain removed where split: "mset (fv_list (connections s)) = mset removed + mset (fv_list (connections s'))"
    and st: "stats s' = (stats s)\<lparr>active_connections := active_connections (stats s) - word_of_nat (length removed)\<rparr>"
    and inv: "server_inv s'"
    using remove_closed_spec [OF assms(2), of os cb] assms(3) by auto
  have "length (fv_list (connections s)) = length removed + length (fv_list (connections s'))"
    using arg_cong [OF split, of size] by simp
  then have "fv_size (connections s) = length removed + fv_size (connections s')"
    using inv assms(2) by (simp add: server_inv_def)
  then show ?thesis using assms(1) st by (simp add: active_accurate_def)
qed

lemma run_iteration_accurate:
  assumes run: "run_iteration os cb s = Some (Inr (Again s'))" and cb: "server_callbacks os cb"
    and keep: "cbs_move same_stats (conn_env os cb)"
    and inv: "server_inv s" and acc: "active_accurate s"
  shows "active_accurate s'"
  using run cb inv
proof (cases rule: run_iteration_phases)
  case (idle revents s4)
  then show ?thesis using poll_phase_fields(1,2) [OF idle(1)] acc by (simp add: active_accurate_def)
next
  case (serve ret revents s4 s5 s6 s7 s8)
  note mv = env_moves_stats [OF keep] and uc = server_callbacksD [OF cb]
  have inv4: "server_inv s4" using poll_phase_fields(1) [OF serve(1)] inv server_inv_cong by blast
  have "active_accurate s4" using poll_phase_fields(1,2) [OF serve(1)] acc by (simp add: active_accurate_def)
  then have acc5: "active_accurate s5" using serve(3) handle_accept_accurate inv4 by auto
  have inv5: "server_inv s5" using serve(3) handle_accept_inv inv4 by auto
  have s6: "server_inv s6" "fv_size (connections s6) = fv_size (connections s5)"
    using io_loop_inv [OF cb refl inv5 serve(4)] by auto
  have s7: "server_inv s7" "fv_size (connections s7) = fv_size (connections s6)"
    using timeout_loop_inv [OF cb refl s6(1), of "[0..<fv_capacity (connections s6)]"] serve(5) by auto
  have "active_accurate s7"
    using acc5 s6(2) s7(2) io_loop_stats [OF uc mv serve(4)] timeout_loop_stats [OF uc mv serve(5)]
    by (simp add: active_accurate_def)
  then show ?thesis using remove_closed_accurate [OF _ s7(1) serve(6)] serve(7) by simp
qed simp_all

section \<open>Reachable servers\<close>

text \<open>
  Every state of a server that was constructed, configured, and run: between iterations the
  outside world may change, and the program may use the setters.
\<close>

inductive server_reachable :: "'k Os \<Rightarrow> 'k Callbacks \<Rightarrow> 'k Server \<Rightarrow> bool" for os cb where
  sr_new: "Server_ctor os nid p addr k = Inr s \<Longrightarrow> server_reachable os cb s"
| sr_max: "server_reachable os cb s \<Longrightarrow> server_reachable os cb (set_max_connections m s)"
| sr_timeout: "server_reachable os cb s \<Longrightarrow> server_reachable os cb (set_poll_timeout_ms t s)"
| sr_tuning: "server_reachable os cb s \<Longrightarrow> server_reachable os cb (set_tcp_tuning tt s)"
| sr_writev: "server_reachable os cb s \<Longrightarrow> server_reachable os cb (set_use_writev b s)"
| sr_stop: "server_reachable os cb s \<Longrightarrow> server_reachable os cb (stop s)"
| sr_reset: "server_reachable os cb s \<Longrightarrow> server_reachable os cb (reset_stats s)"
| sr_start: "server_reachable os cb s \<Longrightarrow> server_reachable os cb (s\<lparr>is_running := True\<rparr>)"
| sr_outside: "server_reachable os cb s \<Longrightarrow> server_reachable os cb (s\<lparr>outside := k\<rparr>)"
| sr_again: "server_reachable os cb s \<Longrightarrow> run_iteration os cb s = Some (Inr (Again s')) \<Longrightarrow>
    server_reachable os cb s'"
| sr_end: "server_reachable os cb s \<Longrightarrow> run_iteration os cb s = Some (Inr (Stop s')) \<Longrightarrow>
    server_reachable os cb s'"

lemmas setter_defs = set_max_connections_def set_poll_timeout_ms_def set_tcp_tuning_def
  set_use_writev_def stop_def reset_stats_def

lemma Server_ctor_inv: "Server_ctor os nid p addr k = Inr s \<Longrightarrow> server_inv s \<and> active_accurate s"
  by (auto simp: Server_ctor_def Let_def server_inv_def active_accurate_def fv_init_inv fv_init_list
      kMaxConnections_def stats_init_def fv_init_def fv_capacity_def fv_inv_def fv_list_def
      split: prod.splits if_splits)

lemma server_reachable_inv:
  assumes "server_reachable os cb s" and cb: "server_callbacks os cb"
  shows "server_inv s"
  using assms(1)
proof induction
  case (sr_new nid p addr k s)
  then show ?case by (simp add: Server_ctor_inv)
next
  case (sr_again s s')
  then show ?case using run_iteration_inv [OF sr_again(2) cb] by simp
next
  case (sr_end s s')
  then show ?case using run_iteration_inv [OF sr_end(2) cb] by simp
qed (simp_all add: server_inv_def setter_defs)

end
