(* ===== verification/Bench_Client.thy ===== *)
theory Bench_Client
  imports Frame_Stream
begin

text \<open>
  Class \<^verbatim>\<open>BenchClient\<close> of \<^verbatim>\<open>src/examples/benchmark_echo.cpp\<close>: a WebSocket client written
  independently of the library's frame code. The socket calls are the fields of \<open>Net\<close>; their
  world \<open>'w\<close> is a parameter.
\<close>

section \<open>The client\<close>

record 'w Net =
  net_send :: "bytes \<Rightarrow> 'w \<Rightarrow> WriteResult \<times> 'w"
  net_recv :: "nat \<Rightarrow> 'w \<Rightarrow> ReadResult \<times> 'w"

definition bench_request :: bytes where
  "bench_request =
     bytes_of ''GET / HTTP/1.1'' @ crlf @
     bytes_of ''Host: localhost'' @ crlf @
     bytes_of ''Upgrade: websocket'' @ crlf @
     bytes_of ''Connection: Upgrade'' @ crlf @
     bytes_of ''Sec-WebSocket-Version: 13'' @ crlf @
     bytes_of ''Sec-WebSocket-Key: dGhlIHNhbXBsZSBub25jZQ=='' @ crlf @ crlf"

text \<open>\<^verbatim>\<open>strstr\<close> on a NUL-terminated buffer.\<close>

definition c_strstr :: "bytes \<Rightarrow> bytes \<Rightarrow> bool" where
  "c_strstr buf pat \<longleftrightarrow> find_at pat (takeWhile (\<lambda>b. b \<noteq> 0) buf) \<noteq> None"

lemma recv_progress: "length got < n \<Longrightarrow> bs \<noteq> [] \<Longrightarrow> n - (length got + length bs) < n - length got"
  by (cases bs) auto

function handshake_recv :: "'w Net \<Rightarrow> bytes \<Rightarrow> 'w \<Rightarrow> bytes option \<times> 'w" where
  "handshake_recv net got w =
     (if length got < 511 then
        (case net_recv net (511 - length got) w of
           (RdOk bs, w1) \<Rightarrow>
             if bs = [] then (None, w1)
             else if c_strstr (got @ bs) (crlf @ crlf) then (Some (got @ bs), w1)
             else handshake_recv net (got @ bs) w1
         | (RdErr err, w1) \<Rightarrow> (None, w1))
      else (Some got, w))"
  by pat_completeness auto
termination by (relation "measure (\<lambda>(net, got, w). 511 - length got)") (auto simp: recv_progress)

definition client_handshake :: "'w Net \<Rightarrow> 'w \<Rightarrow> bool \<times> 'w" where
  "client_handshake net w =
     (case net_send net bench_request w of
        (res, w1) \<Rightarrow>
          if res \<noteq> WrOk (length bench_request) then (False, w1)
          else (case handshake_recv net [] w1 of
                  (None, w2) \<Rightarrow> (False, w2)
                | (Some buf, w2) \<Rightarrow> (c_strstr buf (bytes_of ''101''), w2)))"

text \<open>
  The header array of \<^verbatim>\<open>send_masked\<close> has \<^verbatim>\<open>14 + 4\<close> bytes; a write past it is \<^const>\<open>None\<close>.
\<close>

definition bench_key :: bytes where
  "bench_key = [0x12, 0x34, 0x56, 0x78]"

definition bench_header :: "u64 \<Rightarrow> (bytes \<times> nat) option" where
  "bench_header len =
     (let st = put_byte 0x81 (Some (replicate 18 0, 0));
          st1 = (if len < 126 then put_byte (ucast (0x80 OR len)) st
                 else if len < 65536 then
                   put_byte (ucast (len AND 0xFF)) (put_byte (ucast (drop_bit 8 len AND 0xFF))
                     (put_byte (0x80 OR 126) st))
                 else put_be_bytes 8 len (put_byte (0x80 OR 127) st))
      in put_byte 0x78 (put_byte 0x56 (put_byte 0x34 (put_byte 0x12 st1))))"

definition mask_bytes :: "bytes \<Rightarrow> bytes" where
  "mask_bytes src = map (\<lambda>i. src ! i XOR bench_key ! (i mod 4)) [0..<length src]"

definition send_masked :: "'w Net \<Rightarrow> bytes \<Rightarrow> 'w \<Rightarrow> (bool \<times> 'w) option" where
  "send_masked net payload w =
     (case bench_header (word_of_nat (length payload)) of
        None \<Rightarrow> None
      | Some (header, pos) \<Rightarrow> Some
          (case net_send net (take pos header) w of
             (res, w1) \<Rightarrow>
               if res \<noteq> WrOk pos then (False, w1)
               else (case net_send net (mask_bytes payload) w1 of
                       (res2, w2) \<Rightarrow> (res2 = WrOk (length payload), w2))))"

text \<open>\<^verbatim>\<open>recv_exact\<close>: the bytes read, or \<^const>\<open>None\<close> when the stream ends or fails first.\<close>

function recv_exact :: "'w Net \<Rightarrow> nat \<Rightarrow> bytes \<Rightarrow> 'w \<Rightarrow> bytes option \<times> 'w" where
  "recv_exact net len got w =
     (if length got < len then
        (case net_recv net (len - length got) w of
           (RdOk bs, w1) \<Rightarrow> if bs = [] then (None, w1) else recv_exact net len (got @ bs) w1
         | (RdErr err, w1) \<Rightarrow> (None, w1))
      else (Some got, w))"
  by pat_completeness auto
termination by (relation "measure (\<lambda>(net, len, got, w). len - length got)") (auto simp: recv_progress)

function drain_payload :: "'w Net \<Rightarrow> nat \<Rightarrow> 'w \<Rightarrow> bool \<times> 'w" where
  "drain_payload net remaining w =
     (if remaining > 0 then
        (let chunk = min remaining 4096 in
         case recv_exact net chunk [] w of
           (None, w1) \<Rightarrow> (False, w1)
         | (Some bs, w1) \<Rightarrow> drain_payload net (remaining - chunk) w1)
      else (True, w))"
  by pat_completeness auto
termination by (relation "measure (\<lambda>(net, remaining, w). remaining)") auto

declare handshake_recv.simps [simp del] recv_exact.simps [simp del] drain_payload.simps [simp del]

definition recv_length :: "'w Net \<Rightarrow> u64 \<Rightarrow> 'w \<Rightarrow> u64 option \<times> 'w" where
  "recv_length net plen w =
     (if plen = 126 then
        (case recv_exact net 2 [] w of
           (None, w1) \<Rightarrow> (None, w1)
         | (Some ext, w1) \<Rightarrow> (Some (push_bit 8 (ucast (ext ! 0)) OR ucast (ext ! 1)), w1))
      else if plen = 127 then
        (case recv_exact net 8 [] w of
           (None, w1) \<Rightarrow> (None, w1)
         | (Some ext, w1) \<Rightarrow> (Some (be_accumulate (take 8 ext) 0), w1))
      else (Some plen, w))"

definition recv_frame :: "'w Net \<Rightarrow> u64 \<Rightarrow> 'w \<Rightarrow> bool \<times> 'w" where
  "recv_frame net expected_payload_len w =
     (case recv_exact net 2 [] w of
        (None, w1) \<Rightarrow> (False, w1)
      | (Some hdr, w1) \<Rightarrow>
          (case recv_length net (ucast (hdr ! 1 AND 0x7F)) w1 of
             (None, w2) \<Rightarrow> (False, w2)
           | (Some plen, w2) \<Rightarrow>
               (case drain_payload net (unat plen) w2 of
                  (drained, w3) \<Rightarrow> (drained \<and> plen = expected_payload_len, w3))))"

section \<open>What the client puts on the wire\<close>

lemma mask_bytes_unmask: "mask_bytes src = unmask_payload src bench_key"
proof -
  have "unmask_loop bs k bench_key = map (\<lambda>i. bs ! i XOR bench_key ! ((k + i) mod 4)) [0..<length bs]" for bs k
  proof (induction bs arbitrary: k)
    case (Cons b bs)
    then show ?case by (simp del: upt_Suc add: upt_rec [of 0] map_Suc_upt [symmetric])
  qed simp
  from this [of src 0] show ?thesis by (simp add: mask_bytes_def unmask_payload_def)
qed

lemma bench_header_bytes:
  "\<exists>buf. bench_header len = Some (header_bytes kText len True @ bench_key @ buf,
     length (header_bytes kText len True) + 4)"
proof -
  let ?bs = "header_bytes kText len True @ bench_key"
  have first: "(0x81 :: u8) = 0x80 OR u8_of_opcode kText"
    "(0x80 OR 126 :: u8) = ucast (0x80 OR 126 :: u64)" "(0x80 OR 127 :: u8) = ucast (0x80 OR 127 :: u64)"
    by simp_all
  have "bench_header len = fold put_byte ?bs (Some (replicate 18 0, 0))"
    by (simp add: bench_header_def header_bytes_def Let_def put_be_bytes_fold mask_bit_def bench_key_def)
  also have "\<dots> = Some (?bs @ drop (length ?bs) (replicate 18 0), length ?bs)"
    using fold_put_byte [of 0 ?bs "replicate 18 0"] length_header_bytes_le [of kText len True]
    by (simp add: bench_key_def)
  finally show ?thesis by (simp add: bench_key_def)
qed

section \<open>Receiving from a stream\<close>

text \<open>
  What the client needs of a connected stream socket: there is a sequence of bytes still to come,
  and while it is not empty \<^verbatim>\<open>recv\<close> returns at least one and at most the requested number of
  its next bytes, whichever way the network cut it. \<open>ready\<close> is what else the socket keeps true.
\<close>

locale byte_source =
  fixes net :: "'w Net" and pending :: "'w \<Rightarrow> bytes" and ready :: "'w \<Rightarrow> bool"
  assumes recv_some: "ready w \<Longrightarrow> pending w \<noteq> [] \<Longrightarrow> 0 < n \<Longrightarrow>
      \<exists>k w'. 0 < k \<and> k \<le> n \<and> net_recv net n w = (RdOk (take k (pending w)), w') \<and>
        pending w' = drop k (pending w) \<and> ready w'"
begin

lemma recv_exact_gets:
  assumes "ready w" and "len \<le> length got + length (pending w)" and "length got \<le> len"
  shows "\<exists>w'. recv_exact net len got w = (Some (got @ take (len - length got) (pending w)), w') \<and>
    pending w' = drop (len - length got) (pending w) \<and> ready w'"
  using assms
proof (induction "len - length got" arbitrary: got w rule: less_induct)
  case less
  show ?case
  proof (cases "length got < len")
    case True
    then have "pending w \<noteq> []" using less.prems by auto
    from recv_some [OF less.prems(1) this, of "len - length got"] True
    obtain k w1 where k: "0 < k" "k \<le> len - length got"
      and rcv: "net_recv net (len - length got) w = (RdOk (take k (pending w)), w1)"
      and w1: "pending w1 = drop k (pending w)" "ready w1" by auto
    have len: "length (take k (pending w)) = k" using k less.prems by simp
    have ne: "take k (pending w) \<noteq> []" using k \<open>pending w \<noteq> []\<close> by simp
    have less: "len - (length got + k) < len - length got" "length got + k \<le> len" using k True by linarith+
    obtain w2 where "recv_exact net len (got @ take k (pending w)) w1 =
        (Some ((got @ take k (pending w)) @ take (len - length (got @ take k (pending w))) (pending w1)), w2)"
      "pending w2 = drop (len - length (got @ take k (pending w))) (pending w1)" "ready w2"
      using less.hyps [of "got @ take k (pending w)" w1] less.prems len less w1 by auto
    moreover have "take k (pending w) @ take (len - (length got + k)) (drop k (pending w)) =
        take (len - length got) (pending w)"
      using k by (simp add: take_add [symmetric])
    ultimately show ?thesis using True rcv ne k len w1
      by (subst recv_exact.simps) (simp add: drop_drop)
  next
    case False
    then show ?thesis using less.prems by (subst recv_exact.simps) simp
  qed
qed

lemma recv_bytes:
  assumes "ready w" and "pending w = a @ rest" and "len = length a"
  obtains w' where "recv_exact net len [] w = (Some a, w')" "pending w' = rest" "ready w'"
  using recv_exact_gets [OF assms(1), of len "[]"] assms(2,3) by auto

lemma drain_payload_gets:
  assumes "ready w" and "n \<le> length (pending w)"
  shows "\<exists>w'. drain_payload net n w = (True, w') \<and> pending w' = drop n (pending w) \<and> ready w'"
  using assms
proof (induction n arbitrary: w rule: less_induct)
  case (less n)
  show ?case
  proof (cases "n > 0")
    case True
    let ?k = "min n 4096"
    have "?k \<le> length (pending w)" using less.prems(2) by simp
    with recv_exact_gets [OF less.prems(1), of ?k "[]"]
    obtain w1 where w1: "recv_exact net ?k [] w = (Some (take ?k (pending w)), w1)"
      "pending w1 = drop ?k (pending w)" "ready w1" by auto
    obtain w2 where "drain_payload net (n - ?k) w1 = (True, w2)" "pending w2 = drop (n - ?k) (pending w1)" "ready w2"
      using less.IH [of "n - ?k" w1] less.prems(2) True w1 diff_le_mono [OF less.prems(2), of ?k] by auto
    with True w1 show ?thesis by (subst drain_payload.simps) (simp add: Let_def)
  qed (use less.prems in \<open>simp add: drain_payload.simps\<close>)
qed

lemma recv_length_gets:
  assumes "header_bytes op len False = h # l # ext" and "ready w" and "pending w = ext @ rest"
  shows "\<exists>w'. recv_length net (ucast (l AND 0x7F)) w = (Some len, w') \<and> pending w' = rest \<and> ready w'"
proof -
  consider "len < 126" | "\<not> len < 126" "len < 65536" | "\<not> len < 126" "\<not> len < 65536" by blast
  then show ?thesis
  proof cases
    case 1
    then have "len < 128" "len \<noteq> 126" "len \<noteq> 127" using order.strict_trans [of len 126 128] by auto
    with 1 assms show ?thesis using length_field_low [of len False]
      by (auto simp: recv_length_def header_bytes_def)
  next
    case 2
    with assms(1) have ext: "ext = [ucast (drop_bit 8 len AND 0xFF), ucast (len AND 0xFF)]"
      and l: "ucast (l AND 0x7F) = (126 :: u64)"
      using length_field_low [of 126 False] by (auto simp: header_bytes_def)
    have "(2 :: nat) = length ext" by (simp add: ext)
    then obtain w' where "recv_exact net 2 [] w = (Some ext, w')" "pending w' = rest" "ready w'"
      by (rule recv_bytes [OF assms(2,3)])
    with 2 show ?thesis using length_field_16 [of len] by (simp add: recv_length_def l ext)
  next
    case 3
    with assms(1) have ext: "ext = be_bytes 8 len" and l: "ucast (l AND 0x7F) = (127 :: u64)"
      using length_field_low [of 127 False] by (auto simp: header_bytes_def)
    obtain w' where "recv_exact net 8 [] w = (Some ext, w')" "pending w' = rest" "ready w'"
      by (rule recv_bytes [OF assms(2,3)]) (simp add: ext)
    then show ?thesis using length_field_64 [of len] by (simp add: recv_length_def l ext)
  qed
qed

lemma recv_frame_gets:
  assumes w: "ready w" "pending w = wire_frame op None p @ rest" and len: "length p < 2 ^ 64"
  shows "\<exists>w'. recv_frame net expected w = (word_of_nat (length p) = expected, w') \<and> pending w' = rest \<and> ready w'"
proof -
  let ?len = "word_of_nat (length p) :: u64"
  have un: "unat ?len = length p" using len by (simp add: unat_of_nat)
  obtain h l ext where hb: "header_bytes op ?len False = h # l # ext"
    by (cases "header_bytes op ?len False"; cases "tl (header_bytes op ?len False)")
       (auto simp: header_bytes_def split: if_splits)
  have "pending w = [h, l] @ ext @ p @ rest" using w(2) hb by (simp add: wire_frame_def)
  moreover have "2 = length [h, l]" by simp
  ultimately obtain w1 where w1: "recv_exact net 2 [] w = (Some [h, l], w1)" "pending w1 = ext @ p @ rest" "ready w1"
    by (rule recv_bytes [OF w(1)])
  from recv_length_gets [OF hb w1(3,2)] obtain w2 where
    w2: "recv_length net (ucast (l AND 0x7F)) w1 = (Some ?len, w2)" "pending w2 = p @ rest" "ready w2" by blast
  from drain_payload_gets [OF w2(3), of "length p"] w2(2) obtain w3 where
    "drain_payload net (length p) w2 = (True, w3)" "pending w3 = rest" "ready w3" by auto
  with w1(1) w2(1) un show ?thesis by (simp add: recv_frame_def)
qed

end

text \<open>The simplest such socket has the bytes still to come as its world.\<close>

definition stream_net :: "bytes Net \<Rightarrow> bool" where
  "stream_net net \<longleftrightarrow> (\<forall>n w. 0 < n \<longrightarrow> w \<noteq> [] \<longrightarrow>
     (\<exists>k. 0 < k \<and> k \<le> n \<and> net_recv net n w = (RdOk (take k w), drop k w)))"

text \<open>
  Reading one unmasked frame of the library: the answer says whether the payload has the
  expected length, and the stream is left at the next frame.
\<close>

lemma recv_frame_stream:
  assumes "stream_net net" and "length p < 2 ^ 64"
  shows "recv_frame net expected (wire_frame op None p @ rest) =
    (word_of_nat (length p) = expected, rest)"
proof -
  have "byte_source net id (\<lambda>w. True)"
    using assms(1) unfolding stream_net_def by unfold_locales (metis id_apply)
  from byte_source.recv_frame_gets [OF this, of "wire_frame op None p @ rest" op p rest expected] assms(2)
  show ?thesis by simp
qed

text \<open>What \<^verbatim>\<open>send_masked\<close> puts on a socket that accepts everything it is given.\<close>

lemma send_masked_takes:
  assumes "\<And>bs w. net_send net bs w = (WrOk (length bs), add w bs)"
    and "\<And>w a b. add (add w a) b = add w (a @ b)"
  shows "send_masked net p w = Some (True, add w (wire_frame kText (Some bench_key) p))"
proof -
  obtain buf where "bench_header (word_of_nat (length p)) =
      Some (header_bytes kText (word_of_nat (length p)) True @ bench_key @ buf,
            length (header_bytes kText (word_of_nat (length p)) True) + 4)"
    using bench_header_bytes by blast
  moreover have "length bench_key = 4" by (simp add: bench_key_def)
  moreover have "length (unmask_payload p bench_key) = length p"
    by (simp add: mask_bytes_unmask [symmetric] mask_bytes_def)
  ultimately show ?thesis using assms
    by (simp add: send_masked_def wire_frame_def mask_bytes_unmask)
qed

text \<open>Such a socket whose world is the list of bytes sent.\<close>

definition accepts_all :: "bytes Net \<Rightarrow> bool" where
  "accepts_all net \<longleftrightarrow> (\<forall>bs w. net_send net bs w = (WrOk (length bs), w @ bs))"

lemma send_masked_wire:
  "accepts_all net \<Longrightarrow> send_masked net p w = Some (True, w @ wire_frame kText (Some bench_key) p)"
  by (rule send_masked_takes) (simp_all add: accepts_all_def)

end
