(* ===== verification/Echo.thy ===== *)
theory Echo
  imports Bench_Client
begin

text \<open>
  The benchmark of \<^verbatim>\<open>src/examples/benchmark_echo.cpp\<close> end to end: its client against the
  library's connection with its \<^verbatim>\<open>on_message\<close> callback, which sends every message back.
\<close>

section \<open>The handshake on the receive buffer\<close>

text \<open>
  What a successful \<^verbatim>\<open>parse_handshake\<close> has found in the first 1024 bytes of the receive buffer:
  the end of the request and the client's key.
\<close>

definition handshake_parts :: "bytes \<Rightarrow> nat \<Rightarrow> bytes \<Rightarrow> bool" where
  "handshake_parts data n key \<longleftrightarrow>
     (\<exists>key_pos value_end. sv_find (crlf @ crlf) data 0 = Some (n - 4) \<and> 4 \<le> n \<and>
        take 4 data = bytes_of ''GET '' \<and> find_key_header data = Some key_pos \<and>
        sv_find crlf data (key_pos + 19) = Some value_end \<and>
        key = trim_back (take (value_end - (key_pos + 19)) (drop (key_pos + 19) data)) \<and> key \<noteq> [])"

lemma length_key_header: "length kKeyHeader = 19"
  by (simp add: kKeyHeader_def)

lemma parse_handshake_success:
  assumes "conn_inv c" and "parse_handshake c = (res, c')" and "ev_has_value res"
  shows "\<exists>n key. handshake_parts (take 1024 (rb_contents (rx_buffer c))) n key \<and>
    rb_contents (rx_buffer c') = drop n (rb_contents (rx_buffer c)) \<and>
    rb_contents (tx_buffer c') = rb_contents (tx_buffer c) @ response_text (generate_accept_key key) \<and>
    handshake_completed c' \<and> last_error_code c' = kOk"
proof -
  have inv: "rb_inv (rx_buffer c)" "rb_inv (tx_buffer c)" using assms(1) by (simp_all add: conn_inv_def)
  let ?data = "take 1024 (rb_contents (rx_buffer c))"
  obtain end_pos key_pos value_end where find: "sv_find (crlf @ crlf) ?data 0 = Some end_pos"
    "take 4 ?data = bytes_of ''GET ''" "find_key_header ?data = Some key_pos"
    "sv_find crlf ?data (key_pos + 19) = Some value_end"
    "trim_back (take (value_end - (key_pos + 19)) (drop (key_pos + 19) ?data)) \<noteq> []"
    and res: "(let (pushed, tx) = rb_push (response_text (generate_accept_key
        (trim_back (take (value_end - (key_pos + 19)) (drop (key_pos + 19) ?data))))) (tx_buffer c)
      in pushed \<and> c' = c\<lparr>rx_buffer := rb_advance (end_pos + 4) (rx_buffer c), tx_buffer := tx,
        handshake_completed := True, sec_websocket_key := [], last_error_code := kOk\<rparr>)"
    using assms(2,3) unfolding parse_handshake_def Let_def rb_peek_contents [OF inv(1)] length_key_header
      sv_substr_def
    by (auto split: if_splits option.splits prod.splits)
  let ?key = "trim_back (take (value_end - (key_pos + 19)) (drop (key_pos + 19) ?data))"
  have "handshake_parts ?data (end_pos + 4) ?key"
    using find unfolding handshake_parts_def by auto
  moreover have "length (response_text (generate_accept_key ?key)) \<le> rb_available (tx_buffer c)"
    using res rb_push_ok [of "response_text (generate_accept_key ?key)" "tx_buffer c"]
    by (simp add: split_beta Let_def)
  ultimately show ?thesis using res
    by (intro exI [of _ "end_pos + 4"] exI [of _ ?key])
       (simp add: split_beta Let_def rb_advance_contents [OF inv(1)] rb_push_contents [OF inv(2)])
qed

text \<open>Conversely, with room for the 129 bytes of the response, such a request is accepted.\<close>

lemma parse_handshake_accepts:
  assumes inv: "rb_inv (rx_buffer c)" and parts: "handshake_parts (take 1024 (rb_contents (rx_buffer c))) n key"
    and room: "129 \<le> rb_available (tx_buffer c)"
  shows "parse_handshake c = (ok, c\<lparr>rx_buffer := rb_advance n (rx_buffer c),
    tx_buffer := snd (rb_push (response_text (generate_accept_key key)) (tx_buffer c)),
    handshake_completed := True, sec_websocket_key := [], last_error_code := kOk\<rparr>)"
proof -
  let ?data = "take 1024 (rb_contents (rx_buffer c))"
  obtain key_pos value_end where find: "sv_find (crlf @ crlf) ?data 0 = Some (n - 4)" "4 \<le> n"
    "take 4 ?data = bytes_of ''GET ''" "find_key_header ?data = Some key_pos"
    "sv_find crlf ?data (key_pos + 19) = Some value_end"
    "key = trim_back (take (value_end - (key_pos + 19)) (drop (key_pos + 19) ?data))" "key \<noteq> []"
    using parts unfolding handshake_parts_def by blast
  have "fst (rb_push (response_text (generate_accept_key key)) (tx_buffer c))"
    using room by (simp add: rb_push_ok length_response)
  moreover have "rb_contents (rx_buffer c) \<noteq> []" using find(3) by (auto simp: bytes_of_def)
  then have "0 < rb_count (rx_buffer c)" by (metis length_greater_0_conv length_rb_contents)
  ultimately show ?thesis using find
    unfolding parse_handshake_def Let_def rb_peek_contents [OF inv] length_key_header sv_substr_def
    by (simp add: length_response split_beta)
qed

section \<open>The client's request\<close>

definition bench_client_key :: bytes where
  "bench_client_key = bytes_of ''dGhlIHNhbXBsZSBub25jZQ==''"

lemma bench_request_parts: "handshake_parts bench_request (length bench_request) bench_client_key"
proof -
  have "sv_find (crlf @ crlf) bench_request 0 = Some (length bench_request - 4) \<and>
      take 4 bench_request = bytes_of ''GET '' \<and> find_key_header bench_request = Some 101 \<and>
      sv_find crlf bench_request 120 = Some 144 \<and>
      trim_back (take 24 (drop 120 bench_request)) = bench_client_key \<and> 4 \<le> length bench_request \<and>
      bench_client_key \<noteq> []"
    by code_simp
  then show ?thesis unfolding handshake_parts_def
    by (intro exI [of _ 101] exI [of _ 144]) simp
qed

section \<open>The echo callback\<close>

text \<open>
  The environment of the benchmark server: only \<^verbatim>\<open>on_message\<close> is set. It calls
  \<^verbatim>\<open>send\<close>, whose backpressure callback is unset.
\<close>

definition quiet_env :: "'w Env \<Rightarrow> 'w Env" where
  "quiet_env e = e\<lparr>on_open := None, on_message := None, on_close := None, on_error := None,
     on_backpressure := None, on_drain := None\<rparr>"

definition bench_env :: "'w Env \<Rightarrow> 'w Env" where
  "bench_env e = (quiet_env e)\<lparr>on_message := Some (\<lambda>msg st. conn_send (quiet_env e) msg st)\<rparr>"

text \<open>The callback's \<^verbatim>\<open>send\<close> is the one of the connection it runs on.\<close>

lemma bench_send: "conn_send (bench_env e) msg st = conn_send (quiet_env e) msg st"
  by (cases st)
     (simp add: conn_send_def send_impl_def check_high_watermark_def bench_env_def Let_def)

lemma bench_callbacks: "user_callbacks (bench_env e)"
proof -
  have "user_callbacks (quiet_env e)" by (simp add: user_callbacks_def quiet_env_def)
  from send_impl_api [OF this]
  have "api_steps (quiet_env e) (fst st) (fst (send_impl (quiet_env e) m False st))" for m st .
  moreover have "api_step (bench_env e) = api_step (quiet_env e)"
    by (intro ext) (simp add: api_step.simps bench_env_def)
  ultimately have "uses_api (bench_env e) (\<lambda>st. conn_send (quiet_env e) m st)" for m
    by (simp add: uses_api_def conn_send_def)
  then show ?thesis by (simp add: user_callbacks_def bench_env_def quiet_env_def)
qed

text \<open>The client's messages as frames, and the answers.\<close>

definition client_stream :: "bytes list \<Rightarrow> bytes" where
  "client_stream ps = concat (map (\<lambda>p. wire_frame kText (Some bench_key) p) ps)"

definition answer_stream :: "bytes list \<Rightarrow> bytes" where
  "answer_stream ps = concat (map (\<lambda>p. wire_frame kText None p) ps)"

lemma key_ok_bench: "key_ok (Some bench_key)" "opcode_wf kText"
  by (simp_all add: key_ok_def bench_key_def opcode_wf_def opcode_of_u8_def)

section \<open>The response at the client\<close>

lemma find_at_occurs: "find_at pat (a @ pat @ b) \<noteq> None"
  using find_at_complete [of pat "length a" "a @ pat @ b"] by auto

lemma response_no_nul: "takeWhile (\<lambda>b. b \<noteq> 0) (response_text (generate_accept_key k)) = response_text (generate_accept_key k)"
proof -
  have lits: "0 \<notin> set (bytes_of ''HTTP/1.1 101 Switching Protocols'') \<and> 0 \<notin> set crlf \<and>
      0 \<notin> set (bytes_of ''Upgrade: websocket'') \<and> 0 \<notin> set (bytes_of ''Connection: Upgrade'') \<and>
      0 \<notin> set (bytes_of ''Sec-WebSocket-Accept: '')" by code_simp
  then have "0 \<notin> set (response_text (generate_accept_key k))"
    using accept_key_no_nul [of k] unfolding response_text_def accept_key_c_str by simp
  then show ?thesis by (subst takeWhile_eq_all_conv) blast
qed

lemma response_101: "c_strstr (response_text (generate_accept_key k)) (bytes_of ''101'')"
proof -
  have "bytes_of ''HTTP/1.1 101 Switching Protocols'' =
      bytes_of ''HTTP/1.1 '' @ bytes_of ''101'' @ bytes_of '' Switching Protocols''"
    by (simp add: bytes_of_def)
  then show ?thesis unfolding c_strstr_def response_no_nul
    using find_at_occurs [of "bytes_of ''101''" "bytes_of ''HTTP/1.1 ''"]
    by (simp add: response_text_def)
qed

text \<open>The client gets the response in one piece, from a stream that holds nothing else yet.\<close>

lemma handshake_recv_response:
  assumes "net_recv net 511 w = (RdOk (response_text (generate_accept_key k)), w')"
  shows "handshake_recv net [] w = (Some (response_text (generate_accept_key k)), w')"
proof -
  let ?r = "response_text (generate_accept_key k)"
  have "find_at (crlf @ crlf) ?r \<noteq> None"
    using find_at_occurs [of "crlf @ crlf" _ "[]"] unfolding response_text_def by (metis append.assoc append_Nil2)
  then have "c_strstr ?r (crlf @ crlf)" by (simp only: c_strstr_def response_no_nul not_False_eq_True simp_thms)
  moreover have "?r \<noteq> []" using length_response [of k] by auto
  ultimately show ?thesis using assms by (subst handshake_recv.simps) simp
qed

end
