(* ===== verification/Conn_Properties.thy ===== *)
theory Conn_Properties
  imports Echo Conn_World
begin

text \<open>
  What the connection guarantees, over every environment and every behaviour of the user's
  callbacks that keeps to the public interface, and where it falls short.
\<close>

section \<open>Invariant and life cycle\<close>

text \<open>C6: In every reachable state of a connection both ring buffers are well formed and have their
  full capacity, nothing is queued for sending before the upgrade, an open or closing connection
  has completed the handshake, and writing is paused only while at least a quarter of the send
  buffer is in use, so that a drained connection is never left paused.\<close>

theorem connection_invariant:
  assumes "reachable e st" and "user_callbacks e"
  shows "conn_inv (fst st)"
  using assms by (rule reachable_inv)

theorem connection_invariant_witness:
  "conn_inv (fst (conn_close sample_env 1000 (send_impl sample_env [1] True
     (snd (Connection_ctor sample_env 3 1 [])))))"
  by (intro connection_invariant [of sample_env] r_close r_send r_new sample_callbacks)

text \<open>C10: The state of a connection only moves forward, from handshaking through open and closing to
  closed: reading, writing by either path, sending and closing never take it back. A closed
  connection stays closed.\<close>

theorem state_moves_forward:
  assumes "user_callbacks e"
    and "handle_read e st = Some (Inr (res, st')) \<or> st' = snd (handle_write e st) \<or>
      st' = snd (handle_write_vectored e st) \<or> st' = send_impl e payload binary st \<or> st' = conn_close e code st"
  shows "conn_ops (fst st) \<le> conn_ops (fst st') \<and> (conn_ops (fst st) = kClosed \<longrightarrow> conn_ops (fst st') = kClosed)"
proof -
  from assms(2) have "conn_steps e (fst st) (fst st')"
  proof (elim disjE)
    assume "handle_read e st = Some (Inr (res, st'))"
    then show ?thesis by (rule handle_read_steps [OF assms(1)])
  next
    assume "st' = snd (handle_write e st)"
    then show ?thesis using handle_write_steps [OF assms(1)] by blast
  next
    assume "st' = snd (handle_write_vectored e st)"
    then show ?thesis using handle_write_vectored_steps [OF assms(1)] by blast
  next
    assume "st' = send_impl e payload binary st"
    then show ?thesis using api_conn_steps [OF send_impl_api [OF assms(1)]] by blast
  next
    assume "st' = conn_close e code st"
    then show ?thesis using api_conn_steps [OF conn_close_api [OF assms(1)]] by blast
  qed
  then have "conn_ops (fst st) \<le> conn_ops (fst st')" by (rule conn_steps_order)
  then show ?thesis using order_top [of "conn_ops (fst st')"] by metis
qed

theorem state_moves_forward_witness:
  "conn_ops (sample_open [] []) \<le> conn_ops (fst (conn_close sample_env 1000 (sample_open [] [], [])))"
  using state_moves_forward [OF sample_callbacks, of "(sample_open [] [], [])" ok
      "conn_close sample_env 1000 (sample_open [] [], [])" "[]" True 1000] by simp

section \<open>Frames\<close>

lemma dispatch_frames_rx:
  assumes "user_callbacks e" and "rb_inv (rx_buffer (fst st))" and "\<forall>(op, p, n) \<in> set fs. op \<noteq> kClose"
  shows "rb_contents (rx_buffer (fst (dispatch_frames e fs st))) =
    drop (frames_size fs) (rb_contents (rx_buffer (fst st)))"
  using assms(2,3)
proof (induction fs arbitrary: st)
  case (Cons f fs)
  obtain op p n where f: "f = (op, p, n)" by (cases f)
  with Cons.prems Cons.IH [of "consume_rx n (deliver e op p st)"] show ?case
    by (simp add: consume_rx_def deliver_rx [OF assms(1)] rb_advance_inv rb_advance_contents
        frames_size_def add.commute)
qed (simp add: frames_size_def)

lemma decode_frames_stop: "frame_at bs = None \<Longrightarrow> decode_frames bs = []"
  by (simp add: decode_frames.simps)

lemma well_framed_step:
  "fst (parse_frame_header bs frame_header0) = 0 \<Longrightarrow> well_framed bs"
  "frame_at bs = Some (op, p, n) \<Longrightarrow> length bs < 2 ^ 64 \<Longrightarrow> well_framed (drop n bs) \<Longrightarrow> well_framed bs"
  by (auto simp: well_framed.simps [of bs] frame_at_def header_wraps_def Let_def split: prod.splits if_splits)

text \<open>C4: \<^verbatim>\<open>parse_frames\<close> returns and does what the frame format says: it delivers the complete
  frames at the front of the receive buffer in order, each exactly once and unmasked, answers
  pings, stops at a close frame, and leaves exactly the bytes of the last, incomplete frame in
  the buffer. The hypothesis excludes only headers that announce a length within 14 of
  \<open>2^64\<close>.\<close>

theorem parse_frames_refines:
  assumes "user_callbacks e" and "conn_inv c" and "well_framed (rb_contents (rx_buffer c))"
    and "fs = decode_frames (rb_contents (rx_buffer c))"
  shows "parse_frames e (c, w) = Some (Inr (dispatch_frames e fs (c, w))) \<and>
    ((\<forall>(op, p, n) \<in> set fs. op \<noteq> kClose) \<longrightarrow>
      rb_contents (rx_buffer (fst (dispatch_frames e fs (c, w)))) =
        drop (frames_size fs) (rb_contents (rx_buffer c)))"
  using assms parse_frames_dispatch [of e "(c, w)"] dispatch_frames_rx [of e "(c, w)" fs]
  by (simp add: conn_inv_def kRxBufferSize_def)

theorem parse_frames_refines_witness:
  "\<exists>st. parse_frames sample_env (sample_open [0x81, 0x81, 1, 2, 3, 4, 0x60, 0x89] [], []) = Some (Inr st) \<and>
     rb_contents (rx_buffer (fst st)) = [0x89]"
proof -
  let ?bs = "[0x81, 0x81, 1, 2, 3, 4, 0x60, 0x89] :: bytes"
  note inv = sample_open_inv [of ?bs "[]"]
  have bs: "frame_at ?bs = Some (kText, [0x61], 7)" "frame_at [0x89] = None"
    "fst (parse_frame_header [0x89] frame_header0) = 0" by code_simp+
  have dec: "decode_frames ?bs = [(kText, [0x61], 7)]"
    using frame_at_rest [OF bs(1)] by (simp add: decode_frames_stop bs(2))
  have "well_framed ?bs" by (rule well_framed_step(2) [OF bs(1)]) (simp_all add: well_framed_step(1) bs(3))
  from parse_frames_refines [OF sample_callbacks, of "sample_open ?bs []" "decode_frames ?bs" "[]"] inv this
  show ?thesis by (simp add: dec frames_size_def)
qed




section \<open>Headers whose length wraps\<close>

text \<open>A read that brings data that fits: the bytes are appended and the state handler runs.\<close>

lemma handle_read_data:
  assumes "conn_inv c"
    and "env_readv e (conn_socket c) (map iov_len (rb_fill_iovec_write 2 (rx_buffer c))) w = (RdOk bs, w1)"
    and "bs \<noteq> []" and "length (rb_contents (rx_buffer c)) + length bs \<le> 4096"
    and "env_now e w1 = (t, w2)"
    and "c1 = c\<lparr>rx_buffer := rb_receive bs (rx_buffer c), last_activity := t\<rparr>"
  shows "conn_inv c1" "rb_contents (rx_buffer c1) = rb_contents (rx_buffer c) @ bs"
    "handle_read e (c, w) = (case ops_on_data (ops_table (conn_ops c)) e (c1, w2) of
         None \<Rightarrow> None | Some (Inl f) \<Rightarrow> Some (Inl f)
       | Some (Inr (res, st)) \<Rightarrow> Some (Inr (ok, set_error kOk st)))"
proof -
  have rx: "rb_inv (rx_buffer c)" "rb_kCapacity (rx_buffer c) = 4096"
    using assms(1) by (simp_all add: conn_inv_def kRxBufferSize_def)
  have room: "length bs \<le> rb_available (rx_buffer c)"
    using assms(4) rx by (simp add: rb_available_contents)
  show "conn_inv c1" using assms(1,6) rx by (simp add: conn_inv_def rb_receive_inv rb_receive_capacity)
  show "rb_contents (rx_buffer c1) = rb_contents (rx_buffer c) @ bs"
    using rb_receive_appends(2) [OF rx(1) room] assms(6) by simp
  have "rb_fill_iovec_write 2 (rx_buffer c) \<noteq> []"
    using room assms(3) by (cases "rb_available (rx_buffer c)") (auto simp: rb_fill_iovec_write_def Let_def)
  then show "handle_read e (c, w) = (case ops_on_data (ops_table (conn_ops c)) e (c1, w2) of
         None \<Rightarrow> None | Some (Inl f) \<Rightarrow> Some (Inl f)
       | Some (Inr (res, st)) \<Rightarrow> Some (Inr (ok, set_error kOk st)))"
    using assms(2,3,5,6) by (simp add: handle_read_def touch_activity_def)
qed

lemma handle_read_open:
  assumes "conn_inv c" and "conn_ops c = kOpen" and "rb_contents (rx_buffer c) = []"
    and "bs \<noteq> []" and "length bs \<le> 4096" and "\<And>fd ls. env_readv e fd ls w = (RdOk bs, w1)"
  obtains c1 w2 where "conn_inv c1" "rb_contents (rx_buffer c1) = bs"
    "handle_read e (c, w) = (case parse_frames e (c1, w2) of None \<Rightarrow> None | Some (Inl f) \<Rightarrow> Some (Inl f)
       | Some (Inr st) \<Rightarrow> Some (Inr (ok, set_error kOk st)))"
proof -
  obtain t w2 where now: "env_now e w1 = (t, w2)" by (cases "env_now e w1")
  have "length (rb_contents (rx_buffer c)) + length bs \<le> 4096" using assms(3,5) by (simp del: length_rb_contents)
  note read = handle_read_data [OF assms(1,6,4) this now refl]
  show ?thesis
    by (rule that [OF read(1)])
       (use read(2,3) assms(2,3) in \<open>auto simp: kOpenOps_def open_on_data_def split: option.split sum.split\<close>)
qed

text \<open>C32: Ten bytes from a peer can stop the server. When an open connection reads the unmasked
  header of a pong frame with payload length \<open>2^64 - 10\<close>, the frame size wraps to 0, the check
  against the received length passes, \<^verbatim>\<open>advance(0)\<close> consumes nothing, and
  \<^verbatim>\<open>handle_read\<close> never returns.\<close>

theorem wrapping_header_hangs:
  assumes "conn_inv c" and "conn_ops c = kOpen" and "rb_contents (rx_buffer c) = []"
    and "length rest \<le> 4086"
    and "\<And>fd ls. env_readv e fd ls w = (RdOk (header_bytes kPong 18446744073709551606 False @ rest), w1)"
  shows "handle_read e (c, w) = None"
proof -
  let ?bs = "header_bytes kPong 18446744073709551606 False @ rest"
  have len: "?bs \<noteq> []" "length ?bs \<le> 4096"
    using assms(4) by (simp_all add: header_bytes_def)
  obtain c1 w2 where c1: "conn_inv c1" "rb_contents (rx_buffer c1) = ?bs"
    "handle_read e (c, w) = (case parse_frames e (c1, w2) of None \<Rightarrow> None | Some (Inl f) \<Rightarrow> Some (Inl f)
       | Some (Inr st) \<Rightarrow> Some (Inr (ok, set_error kOk st)))"
    by (rule handle_read_open [OF assms(1-3) len assms(5)])
  have "parse_frames_body e (c1, w2) = Next (c1, w2)"
    by (rule parse_frames_body_stuck [OF c1(1) disjI1 [OF refl] c1(2)])
  with c1(3) show ?thesis by (simp add: parse_frames_stuck)
qed

theorem wrapping_header_hangs_witness:
  "handle_read (sample_env\<lparr>env_readv := \<lambda>fd ls w. (RdOk [0x8A, 0x7F, 0xFF, 0xFF, 0xFF, 0xFF, 0xFF, 0xFF, 0xFF, 0xF6], w)\<rparr>)
     (sample_open [] [], []) = None"
proof -
  have bs: "header_bytes kPong 18446744073709551606 False @ [] =
      [0x8A, 0x7F, 0xFF, 0xFF, 0xFF, 0xFF, 0xFF, 0xFF, 0xFF, 0xF6]" by code_simp
  show ?thesis using sample_open_inv [of "[]" "[]"]
    by (intro wrapping_header_hangs [of _ "[]" _ _ "[]"]) (simp_all only: bs, simp_all)
qed

text \<open>C33: Fourteen bytes from a peer can make the server write outside its stack buffer. When an open
  connection reads a masked header with payload length \<open>2^64 - 14\<close> and its key, the check passes
  and the unmasking loop leaves the array \<^verbatim>\<open>temp\<close>.\<close>

theorem wrapping_header_overruns:
  assumes "conn_inv c" and "conn_ops c = kOpen" and "rb_contents (rx_buffer c) = []"
    and "opcode_wf op" and "4 \<le> length rest" and "length rest \<le> 4086"
    and "\<And>fd ls. env_readv e fd ls w = (RdOk (header_bytes op 18446744073709551602 True @ rest), w1)"
  shows "handle_read e (c, w) = Some (Inl OutOfBounds)"
proof -
  let ?bs = "header_bytes op 18446744073709551602 True @ rest"
  have len: "?bs \<noteq> []" "length ?bs \<le> 4096"
    using assms(6) by (simp_all add: header_bytes_def)
  obtain c1 w2 where c1: "conn_inv c1" "rb_contents (rx_buffer c1) = ?bs"
    "handle_read e (c, w) = (case parse_frames e (c1, w2) of None \<Rightarrow> None | Some (Inl f) \<Rightarrow> Some (Inl f)
       | Some (Inr st) \<Rightarrow> Some (Inr (ok, set_error kOk st)))"
    by (rule handle_read_open [OF assms(1-3) len assms(7)])
  have "parse_frames_body e (c1, w2) = Fault"
    by (rule parse_frames_body_fault [OF c1(1) assms(4,5) c1(2)])
  then have "parse_frames e (c1, w2) = Some (Inl OutOfBounds)" by (subst parse_frames.simps) simp
  with c1(3) show ?thesis by simp
qed

theorem wrapping_header_overruns_witness:
  "handle_read (sample_env\<lparr>env_readv := \<lambda>fd ls w. (RdOk [0x82, 0xFF, 0xFF, 0xFF, 0xFF, 0xFF, 0xFF, 0xFF, 0xFF, 0xF2, 1, 2, 3, 4], w)\<rparr>)
     (sample_open [] [], []) = Some (Inl OutOfBounds)"
proof -
  have bs: "header_bytes kBinary 18446744073709551602 True @ [1, 2, 3, 4] =
      [0x82, 0xFF, 0xFF, 0xFF, 0xFF, 0xFF, 0xFF, 0xFF, 0xFF, 0xF2, 1, 2, 3, 4]" "opcode_wf kBinary" by code_simp+
  show ?thesis using sample_open_inv [of "[]" "[]"] bs(2)
    by (intro wrapping_header_overruns [of _ kBinary "[1, 2, 3, 4]" _ _ "[]"]) (simp_all only: bs(1), simp_all)
qed

end
