(* ===== verification/Conn_Io.thy ===== *)
theory Conn_Io
  imports Conn_Properties
begin

text \<open>
  Behaviour of single operations of the connection: what is queued when a frame is written, the
  outcomes of a read, the opening and the closing handshake, delivery of the send buffer, and
  the two timeouts.
\<close>

section \<open>Writing frames\<close>

lemma tx_room: "conn_inv c \<Longrightarrow> rb_available (tx_buffer c) = 8192 - length (rb_contents (tx_buffer c))"
  by (simp add: conn_inv_def kTxBufferSize_def rb_available_contents)

lemma tx_inv: "conn_inv c \<Longrightarrow> rb_inv (tx_buffer c)"
  by (simp add: conn_inv_def)

text \<open>Writing a frame queues header and payload when both fit. When only the header fits it queues
  the header alone, and when not even that fits it queues nothing. Nothing queued before is
  touched.\<close>

lemma frame_written:
  assumes "conn_inv c"
    and "hb = header_bytes op (word_of_nat (length payload)) False"
    and "room = 8192 - length (rb_contents (tx_buffer c))"
  shows "rb_contents (tx_buffer (write_frame payload op c)) = rb_contents (tx_buffer c) @
    (if room < length hb then [] else if room < length hb + length payload then hb else hb @ payload)"
  using write_frame_tx(3) [OF tx_inv [OF assms(1)], of payload op]
  by (simp only: tx_room [OF assms(1)] assms(2,3))

text \<open>C34: A header queued without its payload makes the peer read the wrong bytes: it takes the payload
  from whatever is sent next, and every later frame is read from the wrong position.\<close>

theorem orphan_header:
  assumes "conn_inv c" and "opcode_wf op" and "length payload < 2 ^ 64"
    and "hb = header_bytes op (word_of_nat (length payload)) False"
    and "old = rb_contents (tx_buffer c)" and "frames_size (decode_frames old) = length old"
    and "length old + length hb \<le> 8192" and "8192 < length old + length hb + length payload"
    and "length payload \<le> length later"
  shows "decode_frames (rb_contents (tx_buffer (write_frame payload op c)) @ later) =
    decode_frames old @ (op, take (length payload) later, length hb + length payload) #
      decode_frames (drop (length payload) later)"
proof -
  have "rb_contents (tx_buffer (write_frame payload op c)) = old @ hb"
    using write_frame_tx(3) [OF tx_inv [OF assms(1)], of payload op] assms(7,8)
    unfolding tx_room [OF assms(1)] assms(4,5) [symmetric] by auto
  moreover have "hb @ later = wire_frame op None (take (length payload) later) @ drop (length payload) later"
    using assms(4,9) by (simp add: wire_frame_def)
  moreover have "decode_frames (wire_frame op None (take (length payload) later) @ drop (length payload) later) =
      (op, take (length payload) later, length hb + length payload) # decode_frames (drop (length payload) later)"
    using decode_wire_frames [of "[(op, None, take (length payload) later)]" "drop (length payload) later"] assms
    by (simp add: key_ok_def wire_frame_def)
  ultimately show ?thesis using decode_frames_append [of old "hb @ later"] assms(6) by simp
qed

theorem orphan_header_witness:
  "decode_frames (rb_contents (tx_buffer (write_frame (replicate 8190 1) kText (sample_open [] []))) @
     replicate 8190 2) = [(kText, replicate 8190 2, 8194)]"
proof -
  have "opcode_wf kText" "length (header_bytes kText 8190 False) = 4" "frame_at [] = None" by code_simp+
  with orphan_header [OF _ _ _ refl refl, of "sample_open [] []" kText "replicate 8190 1" "replicate 8190 2"]
    sample_open_inv [of "[]" "[]"]
  show ?thesis by (simp add: decode_frames_stop frames_size_def del: length_rb_contents)
qed

section \<open>Reading\<close>

text \<open>C27: The outcomes of a read that brings no data: a full receive buffer and a socket error are
  reported, end of stream is reported as a closed connection, and \<^verbatim>\<open>EAGAIN\<close> is not an error.
  In each case only the last error code of the connection changes.\<close>

theorem read_without_data:
  assumes "conn_inv c" and "r = env_readv e (conn_socket c) (map iov_len (rb_fill_iovec_write 2 (rx_buffer c))) w"
    and "full \<longleftrightarrow> length (rb_contents (rx_buffer c)) = 4096"
    and "full \<or> (\<forall>bs w1. r = (RdOk bs, w1) \<longrightarrow> bs = [])"
  shows "handle_read e (c, w) = Some (Inr
    (if full then (ev_error kBufferFull, c\<lparr>last_error_code := kBufferFull\<rparr>, w)
     else case r of
       (RdOk bs, w1) \<Rightarrow> (ev_error kConnectionClosed, c\<lparr>last_error_code := kConnectionClosed\<rparr>, w1)
     | (RdErr err, w1) \<Rightarrow> if err = EAGAIN then (ok, c\<lparr>last_error_code := kOk\<rparr>, w1)
                         else (ev_error kSocketError, c\<lparr>last_error_code := kSocketError\<rparr>, w1)))"
proof -
  have rx: "rb_inv (rx_buffer c)" "rb_kCapacity (rx_buffer c) = 4096"
    using assms(1) by (simp_all add: conn_inv_def kRxBufferSize_def)
  have "length (rb_contents (rx_buffer c)) \<le> 4096" using rx by (simp add: rb_inv_def)
  then have "full \<longleftrightarrow> rb_available (rx_buffer c) = 0"
    using assms(3) rx by (auto simp: rb_available_contents simp del: length_rb_contents)
  then have "full \<longleftrightarrow> rb_fill_iovec_write 2 (rx_buffer c) = []"
    by (auto simp: rb_fill_iovec_write_def Let_def)
  then show ?thesis using assms(2,4)
    by (auto simp: handle_read_def Let_def set_error_def EWOULDBLOCK_def EAGAIN_def split: prod.splits ReadResult.splits)
qed

theorem read_without_data_witness:
  "handle_read (sample_env\<lparr>env_readv := \<lambda>fd ls w. (RdErr 104, w)\<rparr>) (sample_conn, []) =
     Some (Inr (ev_error kSocketError, sample_conn\<lparr>last_error_code := kSocketError\<rparr>, []))"
proof -
  have "length (rb_contents (rx_buffer sample_conn)) \<noteq> 4096"
    by (simp add: sample_conn_fields rb_contents_init kRxBufferSize_def del: length_rb_contents)
  then show ?thesis
    using read_without_data [OF sample_conn_fields(1) refl refl, of "sample_env\<lparr>env_readv := \<lambda>fd ls w. (RdErr 104, w)\<rparr>" "[]"]
    by (simp add: EAGAIN_def)
qed

section \<open>The opening handshake\<close>


text \<open>A connection in the handshake that has received \<open>bs\<close>.\<close>

definition sample_request :: "bytes \<Rightarrow> Connection" where
  "sample_request bs = sample_conn\<lparr>rx_buffer := snd (rb_push bs (rb_init kRxBufferSize 0))\<rparr>"

lemma sample_request_inv:
  assumes "length bs \<le> 4096"
  shows "conn_inv (sample_request bs)" "rb_contents (rx_buffer (sample_request bs)) = bs"
    "conn_ops (sample_request bs) = kHandshaking" "conn_socket (sample_request bs) = 3"
  using assms sample_buffer [of bs 4096] sample_conn_fields
  by (simp_all add: sample_request_def conn_inv_def kRxBufferSize_def)


lemma parse_handshake_refused:
  assumes "129 \<le> rb_available (tx_buffer c)" and "\<not> ev_has_value (fst (parse_handshake c))"
  shows "\<exists>code. parse_handshake c = (ev_error kHandshakeFailed, c\<lparr>last_error_code := code\<rparr>)"
proof -
  have same: "\<exists>code. c = c\<lparr>last_error_code := code\<rparr>" by (rule exI [of _ "last_error_code c"]) simp
  have "fst (rb_push (response_text (generate_accept_key k)) (tx_buffer c))" for k
    using assms(1) by (simp add: rb_push_ok length_response)
  then show ?thesis using assms(2) same unfolding parse_handshake_def Let_def
    by (auto simp: length_response split_beta split: if_splits option.splits)
qed

text \<open>C35: A request that is refused is not reported: \<^verbatim>\<open>handle_read\<close> drops the result of the state
  handler, returns success and records \<^verbatim>\<open>kOk\<close>, and the connection stays in the handshake with the
  request still in its buffer.\<close>

theorem refused_handshake_hidden:
  assumes "conn_inv c" and "conn_ops c = kHandshaking"
    and "env_readv e (conn_socket c) (map iov_len (rb_fill_iovec_write 2 (rx_buffer c))) w = (RdOk bs, w1)"
    and "bs \<noteq> []" and "length (rb_contents (rx_buffer c)) + length bs \<le> 4096"
    and "env_now e w1 = (t, w2)"
    and "c1 = c\<lparr>rx_buffer := rb_receive bs (rx_buffer c), last_activity := t\<rparr>"
    and "\<nexists>n key. handshake_parts (take 1024 (rb_contents (rx_buffer c1))) n key"
  shows "handle_read e (c, w) = Some (Inr (ok, c1\<lparr>last_error_code := kOk\<rparr>, w2)) \<and>
    fst (parse_handshake c1) = ev_error kHandshakeFailed \<and>
    rb_contents (rx_buffer c1) = rb_contents (rx_buffer c) @ bs"
proof -
  note read = handle_read_data [OF assms(1,3-7)]
  have ops: "conn_ops c1 = kHandshaking" "rb_contents (tx_buffer c1) = []"
    using assms(1,2,7) by (simp_all add: conn_inv_def)
  have no: "\<not> ev_has_value (fst (parse_handshake c1))"
    using parse_handshake_success [OF read(1), of "fst (parse_handshake c1)" "snd (parse_handshake c1)"] assms(8) by auto
  obtain code where code: "parse_handshake c1 = (ev_error kHandshakeFailed, c1\<lparr>last_error_code := code\<rparr>)"
    using parse_handshake_refused [OF _ no] ops(2) by (auto simp: tx_room [OF read(1)])
  then have "ops_on_data (ops_table (conn_ops c)) e (c1, w2) =
      Some (Inr (ev_error kHandshakeFailed, c1\<lparr>last_error_code := code\<rparr>, w2))"
    using assms(2) by (simp add: kHandshakeOps_def handshake_on_data_def)
  with code read(2,3) show ?thesis by (simp add: set_error_def)
qed

lemma sample_conn_rx:
  "rb_inv (rx_buffer sample_conn)" "rb_contents (rx_buffer sample_conn) = []"
  "rb_available (rx_buffer sample_conn) = 4096"
  by (simp_all add: sample_conn_fields rb_inv_init rb_contents_init rb_available_contents rb_capacity_init
      kRxBufferSize_def del: length_rb_contents)

lemma sample_readv:
  assumes "length bs \<le> 4096"
  shows "env_readv sample_env fd (map iov_len (rb_fill_iovec_write 2 (rx_buffer sample_conn))) bs = (RdOk bs, [])"
  using rb_fill_iovec_write_total [OF _ sample_conn_rx(1), of 2] sample_conn_rx(3) assms
  by (simp add: sample_env_def iov_total_def)

theorem refused_handshake_hidden_witness:
  "\<exists>c1. handle_read sample_env (sample_conn, bytes_of ''PUT /'' @ crlf @ crlf) =
     Some (Inr (ok, c1\<lparr>last_error_code := kOk\<rparr>, [])) \<and>
     fst (parse_handshake c1) = ev_error kHandshakeFailed"
proof -
  let ?bs = "bytes_of ''PUT /'' @ crlf @ crlf"
  let ?c1 = "sample_conn\<lparr>rx_buffer := rb_receive ?bs (rx_buffer sample_conn), last_activity := 0\<rparr>"
  have lit: "take 4 ?bs \<noteq> bytes_of ''GET ''" "length ?bs = 9" "?bs \<noteq> []" by code_simp+
  note rx = sample_conn_rx
  have "rb_contents (rx_buffer ?c1) = ?bs"
    using rb_receive_appends(2) [OF rx(1), of ?bs] rx lit(2) by simp
  then have "\<nexists>n key. handshake_parts (take 1024 (rb_contents (rx_buffer ?c1))) n key"
    using lit(1,2) by (simp add: handshake_parts_def)
  moreover note sample_readv [of ?bs]
  ultimately show ?thesis
    using refused_handshake_hidden [of sample_conn sample_env ?bs ?bs "[]" 0 "[]" ?c1] sample_conn_fields(1,2) lit rx(2)
    by (intro exI [of _ ?c1]) (simp add: sample_env_def)
qed

section \<open>The closing handshake\<close>

text \<open>When the peer closes, \<^verbatim>\<open>on_close\<close> runs twice: with \<^verbatim>\<open>false\<close> from \<^verbatim>\<open>parse_frames\<close> and with
  \<^verbatim>\<open>true\<close> from the transition to the closed state. Then the socket is closed.\<close>

lemma peer_close_notifies_twice:
  assumes "conn_inv c" and "frame_at (rb_contents (rx_buffer c)) = Some (kClose, p, n)"
    and "on_close e = Some f" and "f False (c, w) = (c1, w1)"
  shows "parse_frames e (c, w) = Some (Inr (close_socket e (f True (c1\<lparr>conn_ops := kClosed\<rparr>, w1))))"
proof -
  have rx: "rb_inv (rx_buffer c)" "rb_kCapacity (rx_buffer c) = 4096"
    using assms(1) by (simp_all add: conn_inv_def kRxBufferSize_def)
  have "length (rb_contents (rx_buffer c)) < 2 ^ 64" using rx by (simp add: rb_inv_def)
  then have "\<not> header_wraps (rb_contents (rx_buffer c))" using assms(2)
    by (auto simp: frame_at_def header_wraps_def Let_def split: prod.splits if_splits)
  with parse_frames_unfold [of "(c, w)" e] rx assms(2-4) show ?thesis
    by (simp add: peer_close_def call_opt_def)
qed

text \<open>C38: While a connection waits for the answer to its close frame it only looks at the first frame in
  its receive buffer and consumes nothing. When that frame is not a close frame, every further
  read just appends, so the close frame of a peer that still had data on the way is never seen.\<close>

theorem closing_never_consumes:
  assumes "conn_inv c" and "conn_ops c = kClosing"
    and "env_readv e (conn_socket c) (map iov_len (rb_fill_iovec_write 2 (rx_buffer c))) w = (RdOk bs, w1)"
    and "bs \<noteq> []" and "length (rb_contents (rx_buffer c)) + length bs \<le> 4096"
    and "env_now e w1 = (t, w2)"
    and "frame_at (take 1024 (rb_contents (rx_buffer c) @ bs)) = Some (op, p, n)" and "op \<noteq> kClose"
  shows "\<exists>c'. handle_read e (c, w) = Some (Inr (ok, c', w2)) \<and> conn_ops c' = kClosing \<and>
    rb_contents (rx_buffer c') = rb_contents (rx_buffer c) @ bs"
proof -
  let ?c1 = "c\<lparr>rx_buffer := rb_receive bs (rx_buffer c), last_activity := t\<rparr>"
  note read = handle_read_data [OF assms(1,3-6) refl]
  let ?data = "take 1024 (rb_contents (rx_buffer c) @ bs)"
  have "rb_inv (rx_buffer ?c1)" using read(1) by (simp add: conn_inv_def)
  then have peek: "rb_peek 1024 (rx_buffer ?c1) = ?data" using read(2) by (simp add: rb_peek_contents)
  have "opcode (snd (parse_frame_header ?data frame_header0)) \<noteq> kClose"
    using assms(7,8) by (auto simp: frame_at_def Let_def split: prod.splits if_splits)
  then have "closing_on_data e (?c1, w2) = Some (Inr (ok, ?c1, w2))"
    using peek by (simp add: closing_on_data_def Let_def split_beta)
  with read(2,3) assms(2) show ?thesis by (simp add: kClosingOps_def set_error_def)
qed

theorem closing_never_consumes_witness:
  "\<exists>c'. handle_read sample_env (sample_conn\<lparr>conn_ops := kClosing, handshake_completed := True\<rparr>, [0x81, 0, 0x88, 0]) =
     Some (Inr (ok, c', [])) \<and> conn_ops c' = kClosing \<and> rb_contents (rx_buffer c') = [0x81, 0, 0x88, 0]"
proof -
  let ?c = "sample_conn\<lparr>conn_ops := kClosing, handshake_completed := True\<rparr>"
  have "frame_at [0x81, 0, 0x88, 0] = Some (kText, [], 2)" by code_simp
  moreover have "conn_inv ?c" using sample_conn_fields(1) by (simp add: conn_inv_def sample_conn_fields)
  ultimately show ?thesis
    using closing_never_consumes [of ?c sample_env "[0x81, 0, 0x88, 0]" "[0x81, 0, 0x88, 0]" "[]" 0 "[]" kText "[]" 2]
      sample_readv [of "[0x81, 0, 0x88, 0]"] sample_conn_rx
    by (simp add: sample_env_def del: length_rb_contents)
qed

section \<open>Delivery\<close>

text \<open>The vectored write offers the socket the whole send buffer and the plain write its first 512
  bytes; when the socket takes the same number of bytes from either, both leave the connection
  in the same state.\<close>

lemma write_paths_agree:
  assumes "conn_inv c" and "rb_contents (tx_buffer c) \<noteq> []" and "0 < n"
    and "env_writev e (conn_socket c) (rb_contents (tx_buffer c)) w = (WrOk n, w1)"
    and "env_write e (conn_socket c) (take 512 (rb_contents (tx_buffer c))) w = (WrOk n, w1)"
  shows "handle_write_vectored e (c, w) = handle_write e (c, w)"
proof -
  have inv: "rb_inv (tx_buffer c)" using assms(1) by (rule tx_inv)
  have ne: "\<not> rb_empty (tx_buffer c)"
    using assms(2) rb_count_contents [of "tx_buffer c"] by (simp add: rb_empty_def del: length_rb_contents)
  show ?thesis
    using handle_write_vectored_sent [OF inv ne assms(3,4)]
      handle_write_sent [OF inv ne assms(5) [folded kTempReadSize_def]] by simp
qed

text \<open>A socket that takes at least one byte of what it is offered; its world is what it has sent.\<close>

definition progressing :: "bytes Env \<Rightarrow> bool" where
  "progressing e \<longleftrightarrow> on_drain e = None \<and> (\<forall>fd bs w. bs \<noteq> [] \<longrightarrow>
     (\<exists>k. 0 < k \<and> k \<le> length bs \<and> env_write e fd bs w = (WrOk k, w @ take k bs)))"

lemma handle_write_progress:
  assumes "progressing e" and "rb_inv (tx_buffer c)" and "rb_contents (tx_buffer c) \<noteq> []"
  obtains k c' where "0 < k" "k \<le> length (rb_contents (tx_buffer c))"
    "snd (handle_write e (c, w)) = (c', w @ take k (rb_contents (tx_buffer c)))"
    "rb_inv (tx_buffer c')" "rb_contents (tx_buffer c') = drop k (rb_contents (tx_buffer c))"
proof -
  let ?xs = "rb_contents (tx_buffer c)"
  have ne: "\<not> rb_empty (tx_buffer c)"
    using assms(3) rb_count_contents [of "tx_buffer c"] by (simp add: rb_empty_def del: length_rb_contents)
  have "take kTempReadSize ?xs \<noteq> []" using assms(3) by (simp add: kTempReadSize_def)
  then obtain k where k: "0 < k" "k \<le> length (take kTempReadSize ?xs)"
    "env_write e (conn_socket c) (take kTempReadSize ?xs) w = (WrOk k, w @ take k (take kTempReadSize ?xs))"
    using assms(1) unfolding progressing_def by blast
  have "take k (take kTempReadSize ?xs) = take k ?xs" using k(2) by (simp add: min_absorb1)
  from handle_write_sent [OF assms(2) ne k(3) [unfolded this]] have wr: "snd (handle_write e (c, w)) =
      set_error kOk (check_low_watermark e (c\<lparr>tx_buffer := rb_advance k (tx_buffer c)\<rparr>, w @ take k ?xs))" by simp
  let ?c' = "fst (snd (handle_write e (c, w)))"
  have "tx_buffer ?c' = rb_advance k (tx_buffer c)" "snd (snd (handle_write e (c, w))) = w @ take k ?xs"
    using assms(1) unfolding wr by (simp_all add: check_low_watermark_def call_opt_def set_error_def progressing_def)
  then show ?thesis using k(1,2) assms(2)
    by (intro that [of k ?c'] prod_eqI) (simp_all add: rb_advance_inv rb_advance_contents del: length_rb_contents)
qed



section \<open>Timeouts\<close>

lemma elapsed_ms_exceeds:
  assumes "0 \<le> d" and "d < 2 ^ 64 * 1000000" and "unat m < 2 ^ 63"
  shows "m < elapsed_ms t0 (t0 + d) \<longleftrightarrow> (int (unat m) + 1) * 1000000 \<le> d"
proof -
  have "uint (word_of_int (d div 1000000) :: u64) = d div 1000000"
    using assms(1,2) by (simp add: uint_word_of_int_eq take_bit_eq_mod)
  then have "m < elapsed_ms t0 (t0 + d) \<longleftrightarrow> int (unat m) < d div 1000000"
    using assms(1) by (simp add: elapsed_ms_def Let_def word_less_def)
  also have "\<dots> \<longleftrightarrow> (int (unat m) + 1) * 1000000 \<le> d" by auto
  finally show ?thesis .
qed

text \<open>C28: The two timeouts to the nanosecond: a connection times out in the handshake exactly when it is
  still handshaking 5.001 seconds after it was made, and in the closing handshake exactly when it is
  still closing 5.001 seconds after its close frame was queued.\<close>

theorem timeouts_exact:
  assumes "env_now e w = (t, w')" and "created_at c \<le> t" and "closing_at c \<le> t"
    and "t - created_at c < 2 ^ 64 * 1000000" and "t - closing_at c < 2 ^ 64 * 1000000"
  shows "(fst (is_handshake_timed_out e (c, w)) \<longleftrightarrow>
      conn_ops c = kHandshaking \<and> created_at c + 5001000000 \<le> t) \<and>
    (fst (is_close_timed_out e (c, w)) \<longleftrightarrow> conn_ops c = kClosing \<and> closing_at c + 5001000000 \<le> t)"
  using assms elapsed_ms_exceeds [of "t - created_at c" 5000 "created_at c"]
    elapsed_ms_exceeds [of "t - closing_at c" 5000 "closing_at c"]
  by (auto simp: is_handshake_timed_out_def is_close_timed_out_def get_state_def
      kHandshakeTimeout_def kCloseTimeout_def)

theorem timeouts_exact_witness:
  "fst (is_handshake_timed_out (sample_env\<lparr>env_now := \<lambda>w. (5001000000, w)\<rparr>) (sample_conn, []))"
proof -
  have "closing_at sample_conn = 0" by (simp add: sample_conn_def Connection_ctor_def sample_env_def)
  with timeouts_exact [of "sample_env\<lparr>env_now := \<lambda>w. (5001000000, w)\<rparr>" "[]" 5001000000 "[]" sample_conn]
  show ?thesis by (simp add: sample_conn_fields)
qed

end
