(* ===== verification/Server_Properties.thy ===== *)
theory Server_Properties
  imports Reactor Conn_Io
begin

text \<open>
  What the reactor guarantees: bounds and invariant of its connections, accepting, removing and
  counting them, that an iteration returns, and where it does not do what its callers expect.
\<close>

section \<open>A concrete server\<close>

text \<open>
  An operating system for concrete runs: its world is the byte stream every connection reads,
  \<^verbatim>\<open>poll\<close> reports \<open>ret\<close> and the given events, and \<^verbatim>\<open>accept\<close> yields descriptor 9.
\<close>

definition sample_os :: "int \<Rightarrow> u16 list \<Rightarrow> bytes Os" where
  "sample_os ret revents = \<lparr>
     os_now = (\<lambda>k. (0, k)),
     os_readv = (\<lambda>fd lens k. (RdOk (take (sum_list lens) k), drop (sum_list lens) k)),
     os_writev = (\<lambda>fd bs k. (WrOk (length bs), k)),
     os_write = (\<lambda>fd bs k. (WrOk (length bs), k)),
     os_set_non_blocking = (\<lambda>fd k. k),
     os_close = (\<lambda>fd k. (-1, k)),
     os_is_open = (\<lambda>fd. 0 \<le> fd),
     os_poll = (\<lambda>fds t k. ((ret, revents), k)),
     os_accept = (\<lambda>fd k. (AcOk 9, k)),
     os_close_fd = (\<lambda>fd k. k),
     os_setsockopt = (\<lambda>fd opt v k. k),
     os_last_owner = (\<lambda>c k. True),
     os_socket = (\<lambda>k. (3, k)),
     os_reuse_addr = (\<lambda>fd k. k),
     os_bind = (\<lambda>fd p addr k. (0, k)),
     os_listen = (\<lambda>fd n k. (0, k))\<rparr>"

definition no_callbacks :: "'k Callbacks" where
  "no_callbacks = \<lparr>srv_on_connect = None, srv_on_message = None, srv_on_close = None,
     srv_on_error = None, srv_on_backpressure = None, srv_on_drain = None\<rparr>"

definition sample_server :: "int \<Rightarrow> u16 list \<Rightarrow> bytes Server" where
  "sample_server ret revents = projr (Server_ctor (sample_os ret revents) 1 8080 [] [])"

lemma sample_server_ctor: "Server_ctor (sample_os ret revents) 1 8080 [] [] = Inr (sample_server ret revents)"
  by (simp add: sample_server_def Server_ctor_def sample_os_def)

lemmas sample_server_inv = Server_ctor_inv [OF sample_server_ctor]

lemma no_server_callbacks: "server_callbacks os no_callbacks" "cbs_move R (conn_env os no_callbacks)"
  by (simp_all add: server_callbacks_def user_callbacks_def cbs_move_def conn_env_def no_callbacks_def)

text \<open>The same server with one connection, and bytes on their way to it.\<close>

definition sample_busy :: "int \<Rightarrow> u16 list \<Rightarrow> Connection \<Rightarrow> bytes \<Rightarrow> bytes Server" where
  "sample_busy ret revents c bs = (sample_server ret revents)\<lparr>
     connections := snd (fv_push_back c (fv_init kMaxConnections)), outside := bs,
     stats := stats_init\<lparr>active_connections := 1\<rparr>\<rparr>"

lemma sample_busy_inv:
  assumes "conn_inv c"
  shows "server_inv (sample_busy ret revents c bs)" "fv_size (connections (sample_busy ret revents c bs)) = 1"
    "fv_at (connections (sample_busy ret revents c bs)) 0 = Some c"
    "active_accurate (sample_busy ret revents c bs)" "fv_list (connections (sample_busy ret revents c bs)) = [c]"
proof -
  let ?s = "(sample_server ret revents)\<lparr>connections := fv_init kMaxConnections\<rparr>"
  have cap: "fv_capacity (fv_init kMaxConnections) = kMaxConnections" by (simp add: fv_init_def fv_capacity_def)
  have "fv_inv (fv_init kMaxConnections)" by (rule fv_init_inv) (simp add: kMaxConnections_def)
  then have inv: "server_inv ?s" by (simp add: server_inv_def fv_init_list cap)
  have room: "\<not> fv_full (connections ?s)" by (simp add: fv_full_def fv_init_def fv_capacity_def kMaxConnections_def)
  have conns: "connections (sample_busy ret revents c bs) = snd (fv_push_back c (connections ?s))"
    by (simp add: sample_busy_def)
  note push = push_connection_inv [OF inv assms conns room]
  show "server_inv (sample_busy ret revents c bs)" by (rule push(1))
  show size: "fv_size (connections (sample_busy ret revents c bs)) = 1"
    using push(2) by (simp add: fv_init_def)
  then show "active_accurate (sample_busy ret revents c bs)"
    by (simp add: active_accurate_def) (simp add: sample_busy_def)
  show list: "fv_list (connections (sample_busy ret revents c bs)) = [c]"
    using fvv.push_room [of "connections ?s" c] inv cap
    by (simp add: conns server_inv_def fv_init_list kMaxConnections_def)
  show "fv_at (connections (sample_busy ret revents c bs)) 0 = Some c"
    using fv_at_list [of "connections (sample_busy ret revents c bs)" 0] push(1) size list by (simp add: server_inv_def)
qed

section \<open>Invariant and bounds\<close>

text \<open>C5: In every reachable state the server holds at most 64 connections, each in a state that
  satisfies the connection invariant, in the occupied prefix of its vector, and the poll array of
  65 entries is never overrun.\<close>

theorem server_bounded:
  assumes "server_reachable os cb s" and "server_callbacks os cb"
  shows "server_inv s \<and> get_connection_count s \<le> 64 \<and> length (build_poll_fds s) \<le> 65"
proof -
  have inv: "server_inv s" using assms by (rule server_reachable_inv)
  then have "fv_size (connections s) \<le> 64"
    by (simp add: server_inv_def fv_inv_def kMaxConnections_def)
  with inv show ?thesis by (simp add: get_connection_count_def build_poll_fds_def server_inv_def)
qed

theorem server_bounded_witness:
  "server_inv (set_max_connections 64 (sample_server 1 []))"
  using server_bounded [OF sr_max [OF sr_new [OF sample_server_ctor]] no_server_callbacks(1)] by blast

text \<open>C25: Accepting keeps the number of connections under one more than nine tenths of the limit: while
  the count of active connections is accurate, overload protection refuses before the limit
  itself is reached. With the default limit of 50 the server holds at most 46 connections.\<close>

theorem accept_limit:
  assumes "server_inv s" and "active_accurate s" and "unat (max_connections s) * 9 < 2 ^ 64"
  shows "get_connection_count (handle_accept os cb s) \<le>
    max (get_connection_count s) (unat (max_connections s) * 9 div 10 + 1)"
proof (cases "is_overloaded (max_connections s) (stats s)")
  case True
  obtain r s2 where acc: "on_outside (os_accept os (server_sock s))
      (count_stat (\<lambda>t. t\<lparr>rejected_connections := rejected_connections t + 1\<rparr>) s) = (r, s2)" by fastforce
  have "server_sock (count_stat g s) = server_sock s" for g by (simp add: count_stat_def)
  with True acc on_outside_fields [OF acc] show ?thesis
    by (cases r) (auto simp: handle_accept_def Let_def get_connection_count_def)
next
  case False
  have "fv_size (connections s) \<le> 64" using assms(1) by (simp add: server_inv_def fv_inv_def kMaxConnections_def)
  then have "fv_size (connections s) \<le> unat (max_connections s) * 9 div 10"
    using False assms(2) by (simp add: is_overloaded_nat [OF assms(3)] active_accurate_def unat_of_nat)
  moreover obtain res s' where acc: "accept_connection os cb s = (res, s')" by fastforce
  then have "fv_size (connections s') \<le> Suc (fv_size (connections s))"
  proof (cases rule: accept_connection_cases)
    case (added c)
    then show ?thesis using push_connection_inv(2) [OF assms(1) added(3,6,2)] by simp
  qed simp
  ultimately show ?thesis using False acc by (simp add: handle_accept_def get_connection_count_def)
qed

theorem accept_limit_witness:
  "get_connection_count (handle_accept (sample_os 1 []) no_callbacks (sample_server 1 [])) \<le> 46"
proof -
  have "max_connections (sample_server 1 []) = 50" "get_connection_count (sample_server 1 []) = 0"
    by (simp_all add: sample_server_def Server_ctor_def sample_os_def get_connection_count_def fv_init_def)
  with accept_limit [of "sample_server 1 []" "sample_os 1 []" no_callbacks] sample_server_inv
  show ?thesis by simp
qed

section \<open>Removing and counting\<close>

text \<open>C23: \<^verbatim>\<open>remove_closed_connections\<close> removes exactly the closed connections: it stays within the
  vector, nothing is lost or duplicated by moving the last connection into the gap, and the
  count of active connections drops by the number removed.\<close>

theorem removal_exact:
  assumes "server_inv s"
  shows "\<exists>removed s'. remove_closed_connections os cb s = Some (Inr s') \<and>
    mset removed = filter_mset (is_closed (conn_env os cb)) (mset (fv_list (connections s))) \<and>
    mset (fv_list (connections s')) = filter_mset (\<lambda>c. \<not> is_closed (conn_env os cb) c) (mset (fv_list (connections s))) \<and>
    active_connections (stats s') = active_connections (stats s) - word_of_nat (length removed)"
proof -
  obtain removed s' where r: "remove_closed_connections os cb s = Some (Inr s')"
    "mset (fv_list (connections s)) = mset removed + mset (fv_list (connections s'))"
    "\<forall>c \<in> set removed. is_closed (conn_env os cb) c"
    "\<forall>c \<in> set (fv_list (connections s')). \<not> is_closed (conn_env os cb) c"
    "active_connections (stats s') = active_connections (stats s) - word_of_nat (length removed)"
    using remove_closed_spec [OF assms, of os cb] by auto
  have "filter_mset P (mset xs) = mset xs" if "\<forall>c \<in> set xs. P c" for P and xs :: "Connection list"
    using that by (induction xs) simp_all
  moreover have "filter_mset P (mset xs) = {#}" if "\<forall>c \<in> set xs. \<not> P c" for P and xs :: "Connection list"
    using that by (induction xs) simp_all
  ultimately show ?thesis using r by (intro exI [of _ removed] exI [of _ s']) simp
qed

theorem removal_exact_witness:
  "\<exists>s'. remove_closed_connections (sample_os 1 []) no_callbacks
       (sample_busy 1 [] (sample_conn\<lparr>conn_ops := kClosed\<rparr>) []) = Some (Inr s') \<and>
     fv_list (connections s') = [] \<and> active_connections (stats s') = 0"
proof -
  let ?c = "sample_conn\<lparr>conn_ops := kClosed\<rparr>"
  have c: "conn_inv ?c" using sample_conn_fields(1) by (simp add: conn_inv_def sample_conn_fields)
  have cl: "is_closed (conn_env (sample_os 1 []) no_callbacks) ?c" by (simp add: is_closed_def get_state_def)
  have "active_connections (stats (sample_busy 1 [] ?c [])) = 1" by (simp add: sample_busy_def)
  with removal_exact [OF sample_busy_inv(1) [OF c, of 1 "[]" "[]"], of "sample_os 1 []" no_callbacks] cl
  show ?thesis by (auto simp: sample_busy_inv(5) [OF c])
qed

section \<open>Iterations return\<close>

text \<open>
  What \<^verbatim>\<open>readv\<close> promises: it never stores more bytes than the areas it is given can hold.
\<close>

definition readv_bounded :: "'w Env \<Rightarrow> bool" where
  "readv_bounded e \<longleftrightarrow> (\<forall>fd lens w bs w'. env_readv e fd lens w = (RdOk bs, w') \<longrightarrow> length bs \<le> sum_list lens)"

text \<open>An open connection that reads a header whose announced length wraps.\<close>

definition reads_wrapping :: "'w Env \<Rightarrow> 'w st \<Rightarrow> bool" where
  "reads_wrapping e st \<longleftrightarrow> conn_ops (fst st) = kOpen \<and>
     (\<exists>bs w. env_readv e (conn_socket (fst st)) (map iov_len (rb_fill_iovec_write 2 (rx_buffer (fst st)))) (snd st) = (RdOk bs, w) \<and>
       \<not> well_framed (rb_contents (rx_buffer (fst st)) @ bs))"

lemma on_data_returns:
  assumes "user_callbacks e" and "conn_inv c"
    and "conn_ops c = kOpen \<longrightarrow> well_framed (rb_contents (rx_buffer c))"
  shows "\<exists>r. ops_on_data (ops_table (conn_ops c)) e (c, w) = Some (Inr r)"
proof (cases "conn_ops c")
  case kOpen
  then have "parse_frames e (c, w) = Some (Inr (dispatch_frames e (decode_frames (rb_contents (rx_buffer c))) (c, w)))"
    using parse_frames_dispatch [OF assms(1), of "(c, w)"] assms(2,3) by (simp add: conn_inv_def kRxBufferSize_def)
  with kOpen show ?thesis by (simp add: kOpenOps_def open_on_data_def del: split_paired_Ex)
qed (simp_all add: kHandshakeOps_def handshake_on_data_def kClosingOps_def closing_on_data_def
      kClosedOps_def closed_on_data_def Let_def split_beta del: split_paired_Ex)

lemma handle_read_returns:
  assumes "user_callbacks e" and "readv_bounded e" and "conn_inv c" and "\<not> reads_wrapping e (c, w)"
  shows "\<exists>r. handle_read e (c, w) = Some (Inr r)"
proof -
  let ?iov = "rb_fill_iovec_write 2 (rx_buffer c)"
  have rx: "rb_inv (rx_buffer c)" "rb_kCapacity (rx_buffer c) = 4096"
    using assms(3) by (simp_all add: conn_inv_def kRxBufferSize_def)
  obtain r w1 where rd: "env_readv e (conn_socket c) (map iov_len ?iov) w = (r, w1)" by fastforce
  obtain t w2 where now: "env_now e w1 = (t, w2)" by fastforce
  show ?thesis
  proof (cases "\<exists>bs. r = RdOk bs \<and> bs \<noteq> []")
    case True
    then obtain bs where bs: "r = RdOk bs" "bs \<noteq> []" by blast
    have "length bs \<le> iov_total ?iov" using assms(2) rd bs(1) unfolding readv_bounded_def iov_total_def by blast
    moreover have "length (rb_contents (rx_buffer c)) \<le> 4096" using rx by (simp add: rb_inv_def)
    ultimately have fits: "length (rb_contents (rx_buffer c)) + length bs \<le> 4096"
      using rx by (simp add: rb_fill_iovec_write_total rb_available_contents)
    note read = handle_read_data [OF assms(3) rd [unfolded bs(1)] bs(2) fits now refl]
    let ?c1 = "c\<lparr>rx_buffer := rb_receive bs (rx_buffer c), last_activity := t\<rparr>"
    have "conn_ops ?c1 = kOpen \<longrightarrow> well_framed (rb_contents (rx_buffer ?c1))"
      using assms(4) rd bs(1) unfolding reads_wrapping_def read(2) by auto
    from on_data_returns [OF assms(1) read(1) this, of w2] obtain res st where
      "ops_on_data (ops_table (conn_ops c)) e (?c1, w2) = Some (Inr (res, st))" by auto
    with read(3) show ?thesis by (simp del: split_paired_Ex)
  next
    case False
    then show ?thesis using rd
      by (cases r) (auto simp: handle_read_def Let_def simp del: split_paired_Ex)
  qed
qed

text \<open>The connections an iteration reads from and writes to, and when all of them read safely.\<close>

definition served :: "'k Os \<Rightarrow> 'k Callbacks \<Rightarrow> 'k Server \<Rightarrow> 'k Server st list" where
  "served os cb s =
     (case poll_phase os cb s of (ret, revents, s4) \<Rightarrow>
        io_visits (conn_env os cb) revents [0..<length (build_poll_fds s) - 1]
          (if accept_ready revents then handle_accept os cb s4 else s4))"

lemma run_iteration_returns:
  assumes cb: "server_callbacks os cb" and rd: "readv_bounded (conn_env os cb)" and inv: "server_inv s"
    and ok: "\<forall>st \<in> set (served os cb s). \<not> reads_wrapping (conn_env os cb) st"
  shows "\<exists>it. run_iteration os cb s = Some (Inr it)"
proof -
  obtain ret revents s4 where poll: "poll_phase os cb s = (ret, revents, s4)" by (rule prod_cases3)
  let ?s5 = "if accept_ready revents then handle_accept os cb s4 else s4"
  have "server_inv s4" using poll_phase_fields(1) [OF poll] inv server_inv_cong by blast
  then have s5: "server_inv ?s5" using handle_accept_inv by auto
  have "\<exists>s6. io_loop (conn_env os cb) revents [0..<length (build_poll_fds s) - 1] ?s5 = Some (Inr s6)"
    using handle_read_returns [OF server_callbacksD [OF cb] rd] ok poll
    by (intro io_loop_returns [OF cb refl s5]) (simp add: served_def)
  then obtain s6 where s6: "io_loop (conn_env os cb) revents [0..<length (build_poll_fds s) - 1] ?s5 = Some (Inr s6)" ..
  then have "server_inv s6" using io_loop_inv [OF cb refl s5] by blast
  from timeout_loop_inv [OF cb refl this] obtain s7 where
    s7: "timeout_loop (conn_env os cb) [0..<fv_capacity (connections s6)] s6 = Some (Inr s7)" "server_inv s7" by blast
  from remove_closed_spec [OF s7(2), of os cb] obtain s8 where "remove_closed_connections os cb s7 = Some (Inr s8)" by blast
  with poll s6 s7(1) show ?thesis by (simp add: run_iteration_def Let_def)
qed

text \<open>C7: An iteration of the reactor returns, with every index inside the vector, unless an open
  connection that it serves reads a frame header whose announced length wraps: nothing else, on any
  error or event, makes it loop or fault.\<close>

theorem iteration_returns:
  assumes "server_callbacks os cb" and "readv_bounded (conn_env os cb)" and "server_inv s"
    and "\<forall>st \<in> set (served os cb s). \<not> reads_wrapping (conn_env os cb) st"
  shows "\<exists>it. run_iteration os cb s = Some (Inr it)"
  using assms by (rule run_iteration_returns)

lemma sample_os_bounded: "readv_bounded (conn_env (sample_os ret revents) cb)"
  by (auto simp: readv_bounded_def conn_env_def on_outside_def sample_os_def)

lemma sample_serves:
  assumes "conn_inv c"
  shows "\<exists>s. outside s = bs \<and> set (served (sample_os 1 [0, POLLIN]) no_callbacks (sample_busy 1 [0, POLLIN] c bs)) = {(c, s)}"
proof -
  let ?os = "sample_os 1 [0, POLLIN]" and ?s = "sample_busy 1 [0, POLLIN] c bs"
  obtain s4 where poll: "poll_phase ?os no_callbacks ?s = (1, [0, POLLIN], s4)" "outside s4 = bs"
    by (auto simp: poll_phase_def conn_env_def on_outside_def sample_os_def Let_def sample_busy_def count_stat_def)
  have "fv_at (connections s4) 0 = Some c" using poll_phase_fields(1) [OF poll(1)] sample_busy_inv(3) [OF assms] by simp
  moreover have "length (build_poll_fds ?s) - 1 = 1"
    using sample_busy_inv(5) [OF assms] by (simp add: build_poll_fds_def)
  ultimately show ?thesis using poll
    by (intro exI [of _ s4]) (simp add: served_def accept_ready_def split: option.split sum.split)
qed

text \<open>A run: the connection receives a masked text frame.\<close>

definition sample_frame :: bytes where
  "sample_frame = [0x81, 0x81, 1, 2, 3, 4, 0x60]"

abbreviation sample_loaded :: "bytes Server" where
  "sample_loaded \<equiv> sample_busy 1 [0, POLLIN] (sample_open [] []) sample_frame"

lemma sample_safe:
  "\<forall>st \<in> set (served (sample_os 1 [0, POLLIN]) no_callbacks sample_loaded).
     \<not> reads_wrapping (conn_env (sample_os 1 [0, POLLIN]) no_callbacks) st"
proof -
  let ?c = "sample_open [] []"
  note c = sample_open_inv [of "[]" "[]"]
  have bs: "frame_at sample_frame = Some (kText, [0x61], 7)" "fst (parse_frame_header [] frame_header0) = 0"
    "length sample_frame = 7" by code_simp+
  have wf: "well_framed sample_frame"
    by (rule well_framed_step(2) [OF bs(1)]) (simp_all add: well_framed_step(1) bs(2,3))
  have "rb_inv (rx_buffer ?c)" using c(1) by (simp add: conn_inv_def)
  then have "iov_total (rb_fill_iovec_write 2 (rx_buffer ?c)) = 4096"
    using c by (simp add: rb_fill_iovec_write_total rb_available_contents del: length_rb_contents)
  then have safe: "\<not> reads_wrapping (conn_env (sample_os 1 [0, POLLIN]) no_callbacks) (?c, s)" if "outside s = sample_frame" for s
    using c(2) that wf bs(3) by (simp add: reads_wrapping_def conn_env_def on_outside_def sample_os_def iov_total_def)
  have "conn_inv ?c" by (rule c(1)) simp_all
  from sample_serves [OF this, of sample_frame] safe show ?thesis by (metis singletonD)
qed

lemma sample_loaded_inv: "server_inv sample_loaded" "active_accurate sample_loaded"
  using sample_busy_inv(1,4) [OF sample_open_inv(1)] by simp_all

lemma sample_again: "\<exists>s'. run_iteration (sample_os 1 [0, POLLIN]) no_callbacks sample_loaded = Some (Inr (Again s'))"
proof -
  obtain it where "run_iteration (sample_os 1 [0, POLLIN]) no_callbacks sample_loaded = Some (Inr it)"
    using run_iteration_returns [OF no_server_callbacks(1) sample_os_bounded sample_loaded_inv(1) sample_safe] by blast
  moreover from this have "\<exists>s'. it = Again s'" using no_server_callbacks(1) sample_loaded_inv(1)
  proof (cases rule: run_iteration_phases)
    case (stop ret revents s4)
    then show ?thesis by (auto simp: poll_phase_def conn_env_def on_outside_def sample_os_def Let_def)
  qed simp_all
  ultimately show ?thesis by blast
qed

theorem iteration_returns_witness:
  "\<exists>it. run_iteration (sample_os 1 [0, POLLIN]) no_callbacks sample_loaded = Some (Inr it)"
  by (rule iteration_returns [OF no_server_callbacks(1) sample_os_bounded sample_loaded_inv(1) sample_safe])

section \<open>Serving and idle iterations\<close>

text \<open>After an iteration that served events no closed connection is left: whatever was closed by the
  peer, by an error, by a callback or by a timeout has been removed.\<close>

lemma serving_iteration_cleans:
  assumes "run_iteration os cb s = Some (Inr (Again s'))" and "server_callbacks os cb" and "server_inv s"
    and "0 < fst (poll_phase os cb s)"
  shows "\<forall>c \<in> set (fv_list (connections s')). \<not> is_closed (conn_env os cb) c"
  using assms(1,2,3)
proof (cases rule: run_iteration_phases)
  case (serve ret revents s4 s5 s6 s7 s8)
  have "server_inv s4" using poll_phase_fields(1) [OF serve(1)] assms(3) server_inv_cong by blast
  then have "server_inv s5" using serve(3) handle_accept_inv by auto
  then have s6: "server_inv s6" using io_loop_inv [OF assms(2) refl _ serve(4)] by blast
  have "server_inv s7"
    using timeout_loop_inv [OF assms(2) refl s6, of "[0..<fv_capacity (connections s6)]"] serve(5) by auto
  then show ?thesis using remove_closed_spec [of s7 os cb] serve(6,7) by auto
qed (use assms(4) in simp_all)

text \<open>C24: The count of active connections stays accurate over an iteration of the reactor, whichever
  connections are accepted, closed, timed out and removed in it, as long as callbacks leave the
  statistics alone.\<close>

theorem active_count_accurate:
  assumes "run_iteration os cb s = Some (Inr (Again s'))" and "server_callbacks os cb"
    and "cbs_move same_stats (conn_env os cb)" and "server_inv s" and "active_accurate s"
  shows "active_connections (stats s') = word_of_nat (get_connection_count s')"
  using run_iteration_accurate [OF assms] by (simp add: active_accurate_def get_connection_count_def)

theorem active_count_accurate_witness:
  "\<exists>s'. run_iteration (sample_os 1 [0, POLLIN]) no_callbacks sample_loaded = Some (Inr (Again s')) \<and>
     active_connections (stats s') = word_of_nat (get_connection_count s')"
proof -
  obtain s' where run: "run_iteration (sample_os 1 [0, POLLIN]) no_callbacks sample_loaded = Some (Inr (Again s'))"
    using sample_again by blast
  from active_count_accurate [OF run no_server_callbacks sample_loaded_inv] run show ?thesis by blast
qed

text \<open>C39: An iteration in which \<^verbatim>\<open>poll\<close> times out does nothing for the connections: no timeout is
  enforced and no closed connection is removed, however long a connection has been overdue.
  Timeouts are enforced only when some descriptor has an event.\<close>

theorem idle_iteration_skips_timeouts:
  assumes "fst (poll_phase os cb s) = 0"
  shows "\<exists>s'. run_iteration os cb s = Some (Inr (Again s')) \<and> connections s' = connections s"
proof -
  obtain revents s4 where poll: "poll_phase os cb s = (0, revents, s4)"
    using assms by (metis prod.collapse)
  then show ?thesis using poll_phase_fields(1) [OF poll] by (simp add: run_iteration_def)
qed

theorem idle_iteration_skips_timeouts_witness:
  "\<exists>s'. run_iteration (sample_os 0 []) no_callbacks (sample_busy 0 [] sample_conn []) = Some (Inr (Again s')) \<and>
     connections s' = connections (sample_busy 0 [] sample_conn [])"
  by (rule idle_iteration_skips_timeouts)
     (simp add: poll_phase_def conn_env_def on_outside_def sample_os_def Let_def)

lemma unat_neg:
  assumes "0 < n" and "n \<le> 64"
  shows "unat (- word_of_nat n :: u64) = 18446744073709551616 - n"
proof -
  have "(- word_of_nat n :: u64) = word_of_nat (18446744073709551616 - n)"
    using assms by (simp add: of_nat_diff)
  moreover have "unat (word_of_nat (18446744073709551616 - n) :: u64) = 18446744073709551616 - n"
    using assms(1) by (subst unat_of_nat) simp
  ultimately show ?thesis by (simp only:)
qed

lemma wrapped_overloads:
  assumes "unat (active_connections t) = 18446744073709551616 - n" and "n \<le> 64" and "unat limit < 2 ^ 32"
  shows "is_overloaded limit t"
proof -
  have "unat limit * 9 div 10 < 4294967296 * 9" "unat limit * 9 < 2 ^ 64" using assms(3) by simp_all
  then show ?thesis using assms(1,2) unfolding is_overloaded_nat [OF \<open>unat limit * 9 < 2 ^ 64\<close>] by linarith
qed

text \<open>C40: Resetting the statistics while connections are open breaks overload protection: when the first
  of them is removed, the count of active connections wraps below zero, and the server is
  overloaded for every limit below \<open>2^32\<close>, so that it refuses every new connection.\<close>

theorem reset_overloads:
  assumes "server_inv s" and "\<exists>c \<in> set (fv_list (connections s)). is_closed (conn_env os cb) c"
    and "unat limit < 2 ^ 32"
  shows "\<exists>s'. remove_closed_connections os cb (reset_stats s) = Some (Inr s') \<and> is_overloaded limit (stats s')"
proof -
  have inv: "server_inv (reset_stats s)" using assms(1) by (simp add: server_inv_def reset_stats_def)
  have same: "connections (reset_stats s) = connections s" "active_connections (stats (reset_stats s)) = 0"
    by (simp_all add: reset_stats_def stats_reset_def)
  obtain removed s' where r: "remove_closed_connections os cb (reset_stats s) = Some (Inr s')"
    "mset (fv_list (connections s)) = mset removed + mset (fv_list (connections s'))"
    "\<forall>c \<in> set (fv_list (connections s')). \<not> is_closed (conn_env os cb) c"
    "active_connections (stats s') = - word_of_nat (length removed)"
    using remove_closed_spec [OF inv, of os cb] same by auto
  have "removed \<noteq> []"
  proof
    assume "removed = []"
    with r(2) have "mset (fv_list (connections s)) = mset (fv_list (connections s'))" by simp
    then have "set (fv_list (connections s)) = set (fv_list (connections s'))" by (rule mset_eq_setD)
    with assms(2) r(3) show False by blast
  qed
  moreover have "length removed \<le> 64"
    using arg_cong [OF r(2), of size] assms(1) by (simp add: server_inv_def fv_inv_def kMaxConnections_def)
  ultimately have "is_overloaded limit (stats s')"
    using r(4) unat_neg [of "length removed"] assms(3) by (intro wrapped_overloads [of _ "length removed"]) simp_all
  with r(1) show ?thesis by blast
qed

theorem reset_overloads_witness:
  "\<exists>s'. remove_closed_connections (sample_os 1 []) no_callbacks
       (reset_stats (sample_busy 1 [] (sample_conn\<lparr>conn_ops := kClosed\<rparr>) [])) = Some (Inr s') \<and>
     is_overloaded 64 (stats s')"
proof -
  let ?c = "sample_conn\<lparr>conn_ops := kClosed\<rparr>"
  have c: "conn_inv ?c" using sample_conn_fields(1) by (simp add: conn_inv_def sample_conn_fields)
  show ?thesis
    by (rule reset_overloads [OF sample_busy_inv(1) [OF c]]) (simp_all add: sample_busy_inv(5) [OF c] is_closed_def get_state_def)
qed

end
