(* ===== verification/Responder.thy ===== *)
theory Responder
  imports Conn_Io
begin

text \<open>
  Servers that answer every message with one message. The locale \<open>responder\<close> is the contract of such
  an \<^verbatim>\<open>on_message\<close> callback; what a connection then does with the messages it reads is proved once,
  for all the example programs that keep the contract.
\<close>

section \<open>Sending without a backpressure callback\<close>

text \<open>What \<^verbatim>\<open>send\<close> leaves of the connection.\<close>

definition after_send :: "bytes \<Rightarrow> Connection \<Rightarrow> Connection" where
  "after_send m c =
     (if conn_ops c \<noteq> kOpen then c
      else let c1 = write_frame m kText c
           in if \<not> write_paused c1 \<and> kTxHighWatermark < rb_size (tx_buffer c1) then c1\<lparr>write_paused := True\<rparr> else c1)"

lemma conn_send_quiet: "on_backpressure e = None \<Longrightarrow> conn_send e m (c, w) = (after_send m c, w)"
  by (simp add: conn_send_def send_impl_def after_send_def get_state_def check_high_watermark_def call_opt_def Let_def)

lemma after_send_fields [simp]:
  "conn_id (after_send m c) = conn_id c" "conn_ops (after_send m c) = conn_ops c"
  "conn_socket (after_send m c) = conn_socket c" "rx_buffer (after_send m c) = rx_buffer c"
  by (simp_all add: after_send_def Let_def)

lemma after_send_api: "api_steps e c (after_send m c)"
proof (cases "conn_ops c = kOpen")
  case True
  let ?c1 = "write_frame m kText c"
  have "api_step e c ?c1" using True by (rule api_send)
  moreover have "api_steps e ?c1 (after_send m c)"
    using api_pause [of ?c1 e] True by (auto simp: after_send_def Let_def)
  ultimately show ?thesis by (rule converse_rtranclp_into_rtranclp)
qed (simp add: after_send_def)

lemma after_send_queues:
  assumes "conn_ops c = kOpen" and "rb_inv (tx_buffer c)"
    and "length (wire_frame kText None m) \<le> rb_available (tx_buffer c)"
  shows "rb_inv (tx_buffer (after_send m c))"
    "rb_kCapacity (tx_buffer (after_send m c)) = rb_kCapacity (tx_buffer c)"
    "rb_contents (tx_buffer (after_send m c)) = rb_contents (tx_buffer c) @ wire_frame kText None m"
proof -
  have tx: "tx_buffer (after_send m c) = tx_buffer (write_frame m kText c)"
    using assms(1) by (simp add: after_send_def Let_def)
  have wf: "wire_frame kText None m = header_bytes kText (word_of_nat (length m)) False @ m"
    by (simp add: wire_frame_def)
  show "rb_inv (tx_buffer (after_send m c))"
    "rb_kCapacity (tx_buffer (after_send m c)) = rb_kCapacity (tx_buffer c)"
    using write_frame_tx(1,2) [OF assms(2)] tx by simp_all
  show "rb_contents (tx_buffer (after_send m c)) = rb_contents (tx_buffer c) @ wire_frame kText None m"
    using write_frame_tx(3) [OF assms(2), of m kText] assms(3) tx by (simp add: wf)
qed

section \<open>Streams of messages\<close>

definition message_stream :: "(OpCode \<times> bytes option \<times> bytes) list \<Rightarrow> bytes" where
  "message_stream fs = concat (map (\<lambda>(op, key, p). wire_frame op key p) fs)"

definition messages_ok :: "(OpCode \<times> bytes option \<times> bytes) list \<Rightarrow> bool" where
  "messages_ok fs \<longleftrightarrow> (\<forall>(op, key, p) \<in> set fs. (op = kText \<or> op = kBinary) \<and> key_ok key)"

abbreviation message_frames :: "(OpCode \<times> bytes option \<times> bytes) list \<Rightarrow> (OpCode \<times> bytes \<times> nat) list" where
  "message_frames fs \<equiv> map (\<lambda>(op, key, p). (op, p, length (wire_frame op key p))) fs"

definition answers_of :: "(bytes \<Rightarrow> bytes) \<Rightarrow> (OpCode \<times> bytes option \<times> bytes) list \<Rightarrow> bytes" where
  "answers_of answer fs = concat (map (\<lambda>(op, key, p). wire_frame kText None (answer p)) fs)"

lemma length_wire_frame_ge: "length p \<le> length (wire_frame op key p)" "wire_frame op key p \<noteq> []"
  by (auto simp: wire_frame_def unmask_payload_def header_bytes_def split: option.split)

lemma message_sizes: "(op, key, p) \<in> set fs \<Longrightarrow> length p \<le> length (message_stream fs)"
  using length_wire_frame_ge(1) by (induction fs) (fastforce simp: message_stream_def intro: trans_le_add1 trans_le_add2)+

lemma message_stream_frames:
  assumes "messages_ok fs" and "length (message_stream fs) \<le> 4096"
  shows "decode_frames (message_stream fs) = message_frames fs" and "well_framed (message_stream fs)"
proof -
  have wf: "opcode_wf kText" "opcode_wf kBinary" by (simp_all add: opcode_wf_def opcode_of_u8_def)
  have ok: "\<forall>(op, key, p) \<in> set fs. opcode_wf op \<and> key_ok key \<and> length p \<le> 4096"
    using assms message_sizes [of _ _ _ fs] wf by (fastforce simp: messages_ok_def)
  show "well_framed (message_stream fs)" unfolding message_stream_def by (rule well_framed_wire_frames [OF ok])
  have "\<forall>(op, key, p) \<in> set fs. opcode_wf op \<and> key_ok key \<and> length p < 2 ^ 64" using ok by fastforce
  moreover have "frame_at [] = None" by code_simp
  then have "decode_frames [] = []" by (rule decode_frames_stop)
  ultimately show "decode_frames (message_stream fs) = message_frames fs"
    using decode_wire_frames [of fs "[]"] by (simp add: message_stream_def)
qed

section \<open>The contract\<close>

text \<open>
  \<open>answer\<close> is the text sent back for a message, \<open>effect\<close> what the callback does to the rest of the
  world.
\<close>

locale responder =
  fixes e :: "'w Env" and answer :: "bytes \<Rightarrow> bytes" and effect :: "bytes \<Rightarrow> 'w \<Rightarrow> 'w"
  assumes callbacks: "user_callbacks e"
    and message: "call_opt (map_option (\<lambda>f. f p) (on_message e)) (c, w) = (after_send (answer p) c, effect p w)"
begin

lemma dispatch_answers:
  assumes "messages_ok fs" and "conn_ops c = kOpen" and "rb_inv (rx_buffer c)" and "rb_inv (tx_buffer c)"
    and "rb_contents (rx_buffer c) = message_stream fs"
    and "length (answers_of answer fs) \<le> rb_available (tx_buffer c)"
  shows "\<exists>c'. dispatch_frames e (message_frames fs) (c, w) = (c', fold (\<lambda>(op, key, p). effect p) fs w) \<and>
    conn_ops c' = kOpen \<and> conn_socket c' = conn_socket c \<and> rb_contents (rx_buffer c') = [] \<and>
    rb_contents (tx_buffer c') = rb_contents (tx_buffer c) @ answers_of answer fs"
  using assms
proof (induction fs arbitrary: c w)
  case Nil
  then show ?case by (simp add: message_stream_def answers_of_def)
next
  case (Cons f fs)
  obtain op key p where f: "f = (op, key, p)" by (cases f)
  let ?n = "length (wire_frame op key p)" and ?c1 = "after_send (answer p) c"
  let ?c2 = "?c1\<lparr>rx_buffer := rb_advance ?n (rx_buffer c)\<rparr>"
  have op: "op = kText \<or> op = kBinary" "messages_ok fs" using Cons.prems(1) f by (auto simp: messages_ok_def)
  then have first: "deliver e op p (c, w) = (?c1, effect p w)" by (simp add: deliver_def message)
  have fits: "length (wire_frame kText None (answer p)) \<le> rb_available (tx_buffer c)"
    using Cons.prems(6) f by (simp add: answers_of_def)
  note q = after_send_queues [OF Cons.prems(2,4) fits]
  have room: "length (answers_of answer fs) \<le> rb_available (tx_buffer ?c1)"
    using Cons.prems(6) f by (simp add: rb_available_contents q answers_of_def del: length_rb_contents)
  obtain c' where "dispatch_frames e (message_frames fs) (?c2, effect p w) = (c', fold (\<lambda>(op, key, p). effect p) fs (effect p w))"
    "conn_ops c' = kOpen" "conn_socket c' = conn_socket c" "rb_contents (rx_buffer c') = []"
    "rb_contents (tx_buffer c') = rb_contents (tx_buffer ?c1) @ answers_of answer fs"
    using Cons.IH [of ?c2 "effect p w"] Cons.prems op(2) q room f
    by (auto simp: rb_advance_inv rb_advance_contents message_stream_def)
  then show ?case using first f op(1) q(3)
    by (auto simp: consume_rx_def answers_of_def)
qed

lemma read_answers:
  assumes "messages_ok fs" and "fs \<noteq> []" and "length (message_stream fs) \<le> 4096"
    and "conn_inv c" and "conn_ops c = kOpen" and "rb_contents (rx_buffer c) = []"
    and "length (rb_contents (tx_buffer c)) + length (answers_of answer fs) \<le> 8192"
    and "env_readv e (conn_socket c) (map iov_len (rb_fill_iovec_write 2 (rx_buffer c))) w = (RdOk (message_stream fs), w1)"
    and "env_now e w1 = (t, w2)"
  shows "\<exists>c'. handle_read e (c, w) = Some (Inr (ok, c', fold (\<lambda>(op, key, p). effect p) fs w2)) \<and> conn_inv c' \<and>
    conn_ops c' = kOpen \<and> conn_socket c' = conn_socket c \<and> rb_contents (rx_buffer c') = [] \<and>
    rb_contents (tx_buffer c') = rb_contents (tx_buffer c) @ answers_of answer fs"
proof -
  let ?bs = "message_stream fs" and ?w = "fold (\<lambda>(op, key, p). effect p) fs w2"
  let ?c1 = "c\<lparr>rx_buffer := rb_receive ?bs (rx_buffer c), last_activity := t\<rparr>"
  have ne: "?bs \<noteq> []" using assms(2) length_wire_frame_ge(2) by (cases fs) (auto simp: message_stream_def)
  have fits: "length (rb_contents (rx_buffer c)) + length ?bs \<le> 4096" using assms(3,6) by (simp del: length_rb_contents)
  note read = handle_read_data [OF assms(4,8) ne fits assms(9) refl]
  have c1: "conn_ops ?c1 = kOpen" "rb_inv (rx_buffer ?c1)" "rb_inv (tx_buffer ?c1)"
    "rb_kCapacity (rx_buffer ?c1) = 4096" "rb_contents (rx_buffer ?c1) = ?bs"
    using read(1,2) assms(5,6) by (simp_all add: conn_inv_def kRxBufferSize_def)
  have "length (answers_of answer fs) \<le> rb_available (tx_buffer ?c1)"
    using assms(7) tx_room [OF read(1)] by (simp del: length_rb_contents)
  from dispatch_answers [OF assms(1) c1(1,2,3,5) this] obtain c2 where
    c2: "dispatch_frames e (message_frames fs) (?c1, w2) = (c2, ?w)" "conn_ops c2 = kOpen"
    "conn_socket c2 = conn_socket c" "rb_contents (rx_buffer c2) = []"
    "rb_contents (tx_buffer c2) = rb_contents (tx_buffer c) @ answers_of answer fs" by auto
  have "parse_frames e (?c1, w2) = Some (Inr (c2, ?w))"
    using parse_frames_dispatch [OF callbacks, of "(?c1, w2)"] c1 message_stream_frames [OF assms(1,3)] c2(1) by simp
  then have run: "handle_read e (c, w) = Some (Inr (ok, c2\<lparr>last_error_code := kOk\<rparr>, ?w))"
    using read(3) assms(5) by (simp add: kOpenOps_def open_on_data_def set_error_def)
  have "conn_inv (c2\<lparr>last_error_code := kOk\<rparr>)"
    using conn_steps_inv [OF handle_read_steps [OF callbacks run]] assms(4) by simp
  with run c2 show ?thesis by (intro exI [of _ "c2\<lparr>last_error_code := kOk\<rparr>"]) simp
qed

end

section \<open>The benchmark server\<close>

interpretation bench: responder "bench_env e" "\<lambda>p. p" "\<lambda>p w. w"
proof
  show "user_callbacks (bench_env e)" by (rule bench_callbacks)
  show "call_opt (map_option (\<lambda>f. f p) (on_message (bench_env e))) (c, w) = (after_send p c, w)" for p c w
    by (simp add: bench_env_def call_opt_def conn_send_quiet quiet_env_def)
qed

end
