(* ===== verification/Echo_Run.thy ===== *)
theory Echo_Run
  imports Responder
begin

text \<open>
  The benchmark client and the library's connection together: the opening handshake, and
  messages that come back as they were sent.
\<close>

section \<open>Opening handshake\<close>

text \<open>The server accepts the request of the benchmark's client and answers its key.\<close>

abbreviation bench_response :: bytes where
  "bench_response \<equiv> response_text (generate_accept_key bench_client_key)"

lemma bench_request_accepted:
  assumes "conn_inv c" and "conn_ops c = kHandshaking" and "rb_contents (rx_buffer c) = bench_request"
  shows "\<exists>c'. parse_handshake c = (ok, c') \<and> rb_contents (rx_buffer c') = [] \<and> rb_contents (tx_buffer c') = bench_response \<and>
    conn_ops c' = kHandshaking \<and> conn_socket c' = conn_socket c"
proof -
  have inv: "rb_inv (rx_buffer c)" "rb_inv (tx_buffer c)" "rb_contents (tx_buffer c) = []"
    using assms(1,2) by (simp_all add: conn_inv_def)
  have room: "129 \<le> rb_available (tx_buffer c)" using inv(3) by (simp add: tx_room [OF assms(1)])
  have "length bench_request \<le> 1024" by code_simp
  then have "handshake_parts (take 1024 (rb_contents (rx_buffer c))) (length bench_request) bench_client_key"
    using bench_request_parts assms(3) by simp
  from parse_handshake_accepts [OF inv(1) this room] room inv assms(2,3) show ?thesis
    by (simp add: rb_push_contents length_response rb_advance_contents)
qed

text \<open>C13: The benchmark's client and the library complete the opening handshake: the library accepts the
  client's request, consumes exactly that request and answers the client's key, and the client
  accepts the answer.\<close>

theorem bench_handshake:
  assumes "conn_inv c" and "conn_ops c = kHandshaking" and "rb_contents (rx_buffer c) = bench_request"
    and "parse_handshake c = (res, c')"
    and "net_send net bench_request w = (WrOk (length bench_request), w1)"
    and "net_recv net 511 w1 = (RdOk (rb_contents (tx_buffer c')), w2)"
  shows "res = ok \<and> rb_contents (rx_buffer c') = [] \<and>
    rb_contents (tx_buffer c') = response_text (generate_accept_key bench_client_key) \<and>
    client_handshake net w = (True, w2)"
proof -
  obtain "res = ok" and rx: "rb_contents (rx_buffer c') = []" and tx: "rb_contents (tx_buffer c') = bench_response"
    using bench_request_accepted [OF assms(1-3)] assms(4) by auto
  moreover have "client_handshake net w = (True, w2)"
    using assms(5) handshake_recv_response [OF assms(6) [unfolded tx]] response_101
    by (simp add: client_handshake_def)
  ultimately show ?thesis by blast
qed

theorem bench_handshake_witness:
  "client_handshake \<lparr>net_send = \<lambda>bs w. (WrOk (length bs), w),
     net_recv = \<lambda>n w. (RdOk (rb_contents (tx_buffer (snd (parse_handshake (sample_request bench_request))))), w)\<rparr> () = (True, ())"
proof -
  have "length bench_request \<le> 4096" by code_simp
  note req = sample_request_inv [OF this]
  show ?thesis
    by (rule bench_handshake [OF req(1,3,2) prod.collapse [symmetric],
          THEN conjunct2, THEN conjunct2, THEN conjunct2]) simp_all
qed

section \<open>Messages\<close>

text \<open>The two halves of the client's loop, for messages sent ahead of the answers.\<close>

fun send_all :: "'w Net \<Rightarrow> bytes list \<Rightarrow> 'w \<Rightarrow> (bool \<times> 'w) option" where
  "send_all net [] w = Some (True, w)"
| "send_all net (p # ps) w =
     (case send_masked net p w of
        None \<Rightarrow> None
      | Some (sent, w1) \<Rightarrow> if sent then send_all net ps w1 else Some (False, w1))"

fun recv_all :: "'w Net \<Rightarrow> bytes list \<Rightarrow> 'w \<Rightarrow> bool \<times> 'w" where
  "recv_all net [] w = (True, w)"
| "recv_all net (p # ps) w =
     (case recv_frame net (word_of_nat (length p)) w of
        (received, w1) \<Rightarrow> if received then recv_all net ps w1 else (False, w1))"

lemma send_all_stream: "accepts_all net \<Longrightarrow> send_all net ps w = Some (True, w @ client_stream ps)"
  by (induction ps arbitrary: w) (simp_all add: send_masked_wire client_stream_def)

lemma recv_all_stream:
  "stream_net net \<Longrightarrow> \<forall>p \<in> set ps. length p < 2 ^ 64 \<Longrightarrow> recv_all net ps (answer_stream ps) = (True, [])"
proof (induction ps)
  case (Cons p ps)
  have "answer_stream (p # ps) = wire_frame kText None p @ answer_stream ps" by (simp add: answer_stream_def)
  then show ?case using Cons recv_frame_stream [OF Cons.prems(1), of p _ kText "answer_stream ps"] by simp
qed (simp add: answer_stream_def)

lemma wire_frame_sizes:
  "length (wire_frame op None p) \<le> length (wire_frame op (Some bench_key) p)"
  "length p \<le> length (wire_frame op (Some bench_key) p)"
  by (simp_all add: wire_frame_def length_header_bytes unmask_payload_def)

lemma stream_sizes:
  "length (answer_stream ps) \<le> length (client_stream ps)"
  "p \<in> set ps \<Longrightarrow> length p \<le> length (client_stream ps)"
proof -
  show "length (answer_stream ps) \<le> length (client_stream ps)"
    by (induction ps) (simp_all add: answer_stream_def client_stream_def add_mono wire_frame_sizes(1))
  show "p \<in> set ps \<Longrightarrow> length p \<le> length (client_stream ps)"
    using wire_frame_sizes(2) [of _ kText]
    by (induction ps) (auto simp: client_stream_def intro: trans_le_add1 trans_le_add2)
qed

lemma answer_stream_decode:
  assumes "\<forall>p \<in> set ps. length p \<le> 4096"
  shows "decode_frames (answer_stream ps) = map (\<lambda>p. (kText, p, length (wire_frame kText None p))) ps"
proof -
  have "frame_at [] = None" by code_simp
  then have nil: "decode_frames [] = []" by (rule decode_frames_stop)
  have "\<forall>(op, key, p) \<in> set (map (\<lambda>p. (kText, None, p)) ps). opcode_wf op \<and> key_ok key \<and> length p < 2 ^ 64"
    using assms key_ok_bench(2) by (fastforce simp: key_ok_def)
  from decode_wire_frames [OF this, of "[]"] show ?thesis by (simp add: answer_stream_def o_def nil)
qed

lemma bench_env_io: "env_readv (bench_env e) = env_readv e" "env_now (bench_env e) = env_now e"
  by (simp_all add: bench_env_def quiet_env_def)

text \<open>What the server's side does with the client's messages.\<close>

lemma handle_read_echo:
  assumes "sent = client_stream ps" and "ps \<noteq> []" and "length sent \<le> 4096"
    and "conn_inv c" and "conn_ops c = kOpen" and "rb_contents (rx_buffer c) = []" and "rb_contents (tx_buffer c) = []"
    and "env_readv e (conn_socket c) (map iov_len (rb_fill_iovec_write 2 (rx_buffer c))) w = (RdOk sent, w1)"
    and "env_now e w1 = (t, w2)"
  shows "\<exists>c'. handle_read (bench_env e) (c, w) = Some (Inr (ok, c', w2)) \<and> conn_inv c' \<and> conn_ops c' = kOpen \<and>
    conn_socket c' = conn_socket c \<and> rb_contents (rx_buffer c') = [] \<and> rb_contents (tx_buffer c') = answer_stream ps"
proof -
  let ?fs = "map (\<lambda>p. (kText, Some bench_key, p)) ps"
  have fs: "message_stream ?fs = sent" "answers_of (\<lambda>p. p) ?fs = answer_stream ps" "?fs \<noteq> []" "messages_ok ?fs"
    using assms(1,2) key_ok_bench
    by (simp_all add: message_stream_def client_stream_def answers_of_def answer_stream_def messages_ok_def o_def)
  have io: "env_readv (bench_env e) (conn_socket c) (map iov_len (rb_fill_iovec_write 2 (rx_buffer c))) w =
      (RdOk (message_stream ?fs), w1)" "env_now (bench_env e) w1 = (t, w2)"
    using assms(8,9) fs(1) by (simp_all add: bench_env_io)
  have "length (rb_contents (tx_buffer c)) + length (answers_of (\<lambda>p. p) ?fs) \<le> 8192"
    using stream_sizes(1) [of ps] assms(1,3,7) fs(2) by (simp del: length_rb_contents)
  moreover have "fold (\<lambda>(op, key, p) w. w) ?fs w2 = w2" by (induction ps) simp_all
  ultimately show ?thesis
    using bench.read_answers [OF fs(4,3) _ assms(4-6) _ io] fs(1,2) assms(3,7) by simp
qed

text \<open>C1: Messages come back as they were sent: when the client's masked messages reach an open
  connection of the benchmark server in one read, the server consumes them all and queues one
  unmasked answer per message, with the same bytes and in the same order, and the client
  receives each answer with the length it expects and nothing else.\<close>

theorem echo_end_to_end:
  assumes "accepts_all net" and "send_all net ps [] = Some (True, sent)" and "ps \<noteq> []" and "length sent \<le> 4096"
    and "conn_inv c" and "conn_ops c = kOpen" and "rb_contents (rx_buffer c) = []" and "rb_contents (tx_buffer c) = []"
    and "env_readv e (conn_socket c) (map iov_len (rb_fill_iovec_write 2 (rx_buffer c))) w = (RdOk sent, w1)"
    and "env_now e w1 = (t, w2)" and "stream_net net'"
  shows "\<exists>c'. handle_read (bench_env e) (c, w) = Some (Inr (ok, c', w2)) \<and> conn_ops c' = kOpen \<and>
    rb_contents (rx_buffer c') = [] \<and>
    decode_frames (rb_contents (tx_buffer c')) = map (\<lambda>p. (kText, p, length (wire_frame kText None p))) ps \<and>
    recv_all net' ps (rb_contents (tx_buffer c')) = (True, [])"
proof -
  have sent: "sent = client_stream ps" using assms(1,2) by (simp add: send_all_stream)
  have small: "\<forall>p \<in> set ps. length p \<le> 4096" using stream_sizes(2) [of _ ps] assms(4) sent by fastforce
  have "recv_all net' ps (answer_stream ps) = (True, [])"
    using recv_all_stream [OF assms(11)] small by force
  with handle_read_echo [OF sent assms(3-10)] answer_stream_decode [OF small] show ?thesis by auto
qed

text \<open>A socket for concrete runs of the client.\<close>

definition sample_net :: "bytes Net" where
  "sample_net = \<lparr>net_send = \<lambda>bs w. (WrOk (length bs), w @ bs), net_recv = \<lambda>n w. (RdOk (take n w), drop n w)\<rparr>"

lemma sample_net_ok: "accepts_all sample_net" "stream_net sample_net"
  by (auto simp: sample_net_def accepts_all_def stream_net_def)

theorem echo_end_to_end_witness:
  "\<exists>c'. handle_read (bench_env sample_env) (sample_open [] [], client_stream [[104, 105], []]) = Some (Inr (ok, c', [])) \<and>
     recv_all sample_net [[104, 105], []] (rb_contents (tx_buffer c')) = (True, [])"
proof -
  let ?ps = "[[104, 105], []] :: bytes list"
  have len: "length (client_stream ?ps) = 14" by code_simp
  note c = sample_open_inv [of "[]" "[]"]
  have "rb_inv (rx_buffer (sample_open [] []))" using c(1) by (simp add: conn_inv_def)
  then have "iov_total (rb_fill_iovec_write 2 (rx_buffer (sample_open [] []))) = 4096"
    using c by (simp add: rb_fill_iovec_write_total rb_available_contents del: length_rb_contents)
  then have rd: "env_readv sample_env 3 (map iov_len (rb_fill_iovec_write 2 (rx_buffer (sample_open [] []))))
      (client_stream ?ps) = (RdOk (client_stream ?ps), [])"
    using len by (simp add: sample_env_def iov_total_def)
  have "env_now sample_env [] = (0, [])" by (simp add: sample_env_def)
  from echo_end_to_end [OF sample_net_ok(1), of ?ps "client_stream ?ps" "sample_open [] []" sample_env
      "client_stream ?ps" "[]" 0 "[]" sample_net] this rd len c sample_net_ok
  show ?thesis by (auto simp: send_all_stream simp del: send_all.simps recv_all.simps)
qed

end
