(* ===== verification/Decimal.thy ===== *)
theory Decimal
  imports Ewss_Prelude
begin

text \<open>
  The conversions between numbers and decimal text that the examples take from the standard
  library: \<^verbatim>\<open>std::to_string\<close>, \<^verbatim>\<open>std::stoull\<close>, \<^verbatim>\<open>std::stoi\<close> and \<^verbatim>\<open>std::atoi\<close>. An exception is
  \<^const>\<open>None\<close>.
\<close>

function to_string :: "nat \<Rightarrow> bytes" where
  "to_string n = (if n < 10 then [48 + word_of_nat n] else to_string (n div 10) @ [48 + word_of_nat (n mod 10)])"
  by auto
termination by (relation "measure id") auto

declare to_string.simps [simp del]

definition is_space :: "u8 \<Rightarrow> bool" where
  "is_space b \<longleftrightarrow> b = 32 \<or> 9 \<le> b \<and> b \<le> 13"

definition is_digit :: "u8 \<Rightarrow> bool" where
  "is_digit b \<longleftrightarrow> 48 \<le> b \<and> b \<le> 57"

definition dec_value :: "bytes \<Rightarrow> nat" where
  "dec_value ds = foldl (\<lambda>a d. 10 * a + unat (d - 48)) 0 ds"

text \<open>
  The subject sequence of \<^verbatim>\<open>strtol\<close> and \<^verbatim>\<open>strtoull\<close>: blanks, an optional sign, then as many
  digits as there are; without a digit there is no conversion. The result is the sign and the value.
\<close>

definition scan_number :: "bytes \<Rightarrow> (bool \<times> nat) option" where
  "scan_number str =
     (let s = dropWhile is_space str;
          negative = (s \<noteq> [] \<and> hd s = 45);
          signed = (s \<noteq> [] \<and> (hd s = 45 \<or> hd s = 43));
          ds = takeWhile is_digit (if signed then tl s else s)
      in if ds = [] then None else Some (negative, dec_value ds))"

text \<open>A leading minus negates in the unsigned type, as \<^verbatim>\<open>strtoull\<close> does.\<close>

definition stoull :: "bytes \<Rightarrow> u64 option" where
  "stoull str =
     (case scan_number str of
        None \<Rightarrow> None
      | Some (negative, v) \<Rightarrow>
          if v \<ge> 2 ^ 64 then None else Some (if negative then - word_of_nat v else word_of_nat v))"

definition stoi :: "bytes \<Rightarrow> int option" where
  "stoi str =
     (case scan_number str of
        None \<Rightarrow> None
      | Some (negative, v) \<Rightarrow>
          let i = (if negative then - int v else int v) in if - (2 ^ 31) \<le> i \<and> i < 2 ^ 31 then Some i else None)"

text \<open>\<^verbatim>\<open>atoi\<close> gives 0 without a digit; outside the range of \<^verbatim>\<open>int\<close> its behaviour is undefined.\<close>

definition atoi :: "bytes \<Rightarrow> int option" where
  "atoi str = (if scan_number str = None then Some 0 else stoi str)"

section \<open>Round trip\<close>

lemma unat_digit: "n < 10 \<Longrightarrow> unat (48 + word_of_nat n :: u8) = 48 + n"
  by (simp add: unat_word_ariths unat_of_nat)

lemma is_digit_digit: "n < 10 \<Longrightarrow> is_digit (48 + word_of_nat n)"
  using unat_digit [of n] by (simp add: is_digit_def word_le_nat_alt)

lemma to_string_digits: "\<forall>d \<in> set (to_string n). is_digit d"
proof (induction n rule: to_string.induct)
  case (1 n)
  then show ?case using is_digit_digit [of n] is_digit_digit [of "n mod 10"]
    by (subst to_string.simps) auto
qed

lemma to_string_nonempty: "to_string n \<noteq> []"
  by (subst to_string.simps) auto

lemma dec_value_snoc: "dec_value (ds @ [d]) = 10 * dec_value ds + unat (d - 48)"
  by (simp add: dec_value_def)

lemma dec_value_to_string: "dec_value (to_string n) = n"
proof (induction n rule: to_string.induct)
  case (1 n)
  have digit: "unat ((48 + word_of_nat k) - 48 :: u8) = k" if "k < 10" for k
    using that by (simp add: unat_of_nat)
  show ?case
  proof (cases "n < 10")
    case True
    then show ?thesis using digit [of n] by (subst to_string.simps) (simp add: dec_value_def)
  next
    case False
    with 1 digit [of "n mod 10"] show ?thesis by (subst to_string.simps) (simp add: dec_value_snoc)
  qed
qed

lemma scan_to_string:
  assumes "rest = [] \<or> \<not> is_digit (hd rest)"
  shows "scan_number (to_string n @ rest) = Some (False, n)"
proof -
  obtain d ds where ds: "to_string n = d # ds" using to_string_nonempty by (cases "to_string n") auto
  then have d: "is_digit d" using to_string_digits [of n] by simp
  then have "\<not> is_space d" "d \<noteq> 45" "d \<noteq> 43" by (auto simp: is_digit_def is_space_def word_le_nat_alt)
  moreover have "takeWhile is_digit (to_string n @ rest) = to_string n"
    using assms to_string_digits [of n] by (cases rest) (auto simp: takeWhile_append takeWhile_eq_all_conv)
  ultimately show ?thesis using ds dec_value_to_string [of n] by (simp add: scan_number_def Let_def)
qed

lemma stoull_to_string:
  "n < 2 ^ 64 \<Longrightarrow> rest = [] \<or> \<not> is_digit (hd rest) \<Longrightarrow> stoull (to_string n @ rest) = Some (word_of_nat n)"
  by (simp add: stoull_def scan_to_string)

lemma stoi_to_string:
  "n < 2 ^ 31 \<Longrightarrow> rest = [] \<or> \<not> is_digit (hd rest) \<Longrightarrow> stoi (to_string n @ rest) = Some (int n)"
  by (simp add: stoi_def scan_to_string Let_def)

end
