(* ===== verification/Bench_Session.thy ===== *)
theory Bench_Session
  imports Server_Properties Echo_Run Decimal
begin

text \<open>
  The benchmark of \<^verbatim>\<open>src/examples/benchmark_echo.cpp\<close> against the reactor: the client's thread,
  and its loop run over a network whose other end is an iteration of \<^verbatim>\<open>Server::run\<close>.
\<close>

section \<open>The client's thread\<close>

text \<open>The calls \<^verbatim>\<open>connect\<close> and \<^verbatim>\<open>close_fd\<close> make; the descriptor \<^verbatim>\<open>fd_\<close> is part of the result.\<close>

record 'w ClientSys =
  cl_socket :: "'w \<Rightarrow> int \<times> 'w"
  cl_nodelay :: "int \<Rightarrow> 'w \<Rightarrow> 'w"
  cl_connect :: "int \<Rightarrow> u16 \<Rightarrow> 'w \<Rightarrow> int \<times> 'w"
  cl_close :: "int \<Rightarrow> 'w \<Rightarrow> 'w"

definition bench_connect :: "'w ClientSys \<Rightarrow> u16 \<Rightarrow> 'w \<Rightarrow> bool \<times> int \<times> 'w" where
  "bench_connect sys p w =
     (let (fd, w1) = cl_socket sys w in
      if fd < 0 then (False, fd, w1)
      else let (r, w2) = cl_connect sys fd p (cl_nodelay sys fd w1) in
      if r < 0 then (False, -1, cl_close sys fd w2) else (True, fd, w2))"

definition close_fd :: "'w ClientSys \<Rightarrow> int \<Rightarrow> 'w \<Rightarrow> int \<times> 'w" where
  "close_fd sys fd w = (if fd \<ge> 0 then (-1, cl_close sys fd w) else (fd, w))"

text \<open>
  The loop over the messages; \<open>ts k\<close> is the \<open>k\<close>-th reading of the clock. The latencies are kept in
  nanoseconds, before the conversion to floating point. \<^const>\<open>None\<close> is a write past the header
  array of \<^verbatim>\<open>send_masked\<close>.
\<close>

fun bench_loop :: "'w Net \<Rightarrow> (nat \<Rightarrow> int) \<Rightarrow> nat \<Rightarrow> nat \<Rightarrow> bytes \<Rightarrow> 'w \<Rightarrow> (int list \<times> 'w) option" where
  "bench_loop net ts i 0 payload w = Some ([], w)"
| "bench_loop net ts i (Suc n) payload w =
     (case send_masked net payload w of
        None \<Rightarrow> None
      | Some (sent, w1) \<Rightarrow>
          if \<not> sent then Some ([], w1)
          else (case recv_frame net (word_of_nat (length payload)) w1 of
                  (received, w2) \<Rightarrow>
                    if \<not> received then Some ([], w2)
                    else (case bench_loop net ts (i + 1) n payload w2 of
                            None \<Rightarrow> None
                          | Some (lat, w3) \<Rightarrow> Some ((ts (2 * i + 1) - ts (2 * i)) # lat, w3))))"

text \<open>
  The body of a thread; the answer says whether the client counted itself ready. When the
  handshake fails the descriptor is not closed.
\<close>

definition bench_client ::
    "'w ClientSys \<Rightarrow> (int \<Rightarrow> 'w Net) \<Rightarrow> (nat \<Rightarrow> int) \<Rightarrow> nat \<Rightarrow> bytes \<Rightarrow> u16 \<Rightarrow> 'w \<Rightarrow> (bool \<times> int list \<times> 'w) option" where
  "bench_client sys net ts n payload p w =
     (case bench_connect sys p w of (connected, fd, w1) \<Rightarrow>
      if \<not> connected then Some (False, [], w1)
      else case client_handshake (net fd) w1 of (shaken, w2) \<Rightarrow>
      if \<not> shaken then Some (False, [], w2)
      else (case bench_loop (net fd) ts 0 n payload w2 of
              None \<Rightarrow> None
            | Some (lat, w3) \<Rightarrow> Some (True, lat, snd (close_fd sys fd w3))))"

section \<open>The program\<close>

text \<open>
  \<^verbatim>\<open>main\<close>: the number of clients, of messages and the payload size from the command line, and the
  settings of the server. \<^const>\<open>None\<close> is the undefined behaviour of \<^verbatim>\<open>atoi\<close>, and for the payload the
  exception of \<^verbatim>\<open>std::string\<close> for a negative size.
\<close>

definition bench_argument :: "bytes list \<Rightarrow> nat \<Rightarrow> int \<Rightarrow> int option" where
  "bench_argument args i d = (if i < length args then atoi (args ! i) else Some d)"

definition bench_arguments :: "bytes list \<Rightarrow> (int \<times> int \<times> int) option" where
  "bench_arguments args =
     (case (bench_argument args 0 1, bench_argument args 1 10000, bench_argument args 2 64) of
        (Some num_clients, Some msgs_per_client, Some payload_size) \<Rightarrow> Some (num_clients, msgs_per_client, payload_size)
      | _ \<Rightarrow> None)"

definition bench_payload :: "int \<Rightarrow> bytes option" where
  "bench_payload payload_size = (if payload_size < 0 then None else Some (replicate (nat payload_size) 65))"

definition bench_configure :: "'k Server \<Rightarrow> 'k Server" where
  "bench_configure s =
     set_poll_timeout_ms 1 (set_max_connections 64 (set_tcp_tuning (tuning_default\<lparr>tcp_nodelay := True\<rparr>) s))"

lemma bench_defaults: "bench_arguments [] = Some (1, 10000, 64)"
  by (simp add: bench_arguments_def bench_argument_def)

section \<open>An iteration with one connection\<close>

text \<open>The callbacks of the benchmark's server.\<close>

definition bench_server_callbacks :: "'k Os \<Rightarrow> 'k Callbacks" where
  "bench_server_callbacks os = no_callbacks\<lparr>srv_on_message :=
     Some (\<lambda>msg st. conn_send (conn_env os no_callbacks) msg st)\<rparr>"

lemma bench_conn_env: "conn_env os (bench_server_callbacks os) = bench_env (conn_env os no_callbacks)"
  by (simp add: bench_env_def quiet_env_def conn_env_def bench_server_callbacks_def no_callbacks_def)

lemma put_back_single:
  assumes "fv_inv (connections s)" and "fv_list (connections s) = [c]"
  shows "fv_inv (connections (put_back 0 (c', s)))" "fv_list (connections (put_back 0 (c', s))) = [c']"
    "fv_capacity (connections (put_back 0 (c', s))) = fv_capacity (connections s)"
    "fv_size (connections s) = 1" "fv_at (connections s) 0 = Some c"
proof -
  show size: "fv_size (connections s) = 1" using fv_list_length [OF assms(1)] assms(2) by simp
  show "fv_at (connections s) 0 = Some c" using fv_at_list [OF assms(1), of 0] assms(2) size by simp
  show "fv_inv (connections (put_back 0 (c', s)))" "fv_list (connections (put_back 0 (c', s))) = [c']"
    using assms size by (simp_all add: put_back_def fv_set_inv fv_set_list)
  show "fv_capacity (connections (put_back 0 (c', s))) = fv_capacity (connections s)"
    by (simp add: put_back_def fv_set_def fv_capacity_def)
qed

lemma enforce_timeout_open: "conn_ops c = kOpen \<Longrightarrow> enforce_timeout e (c, s) = (c, s)"
  by (simp add: enforce_timeout_def is_handshake_timed_out_def is_close_timed_out_def get_state_def)

lemma put_back_same: "fv_inv (connections s) \<Longrightarrow> fv_list (connections s) = [c] \<Longrightarrow> put_back 0 (c, s) = s"
  using put_back_single(4,5) [of s c]
  by (auto simp: put_back_def fv_set_def fv_at_def fv_capacity_def list_update_same_conv split: if_splits)

text \<open>The end of an iteration when the only connection is neither overdue nor closed.\<close>

lemma one_connection_settles:
  assumes inv: "fv_inv (connections s)" "fv_capacity (connections s) = kMaxConnections"
    and one: "fv_list (connections s) = [c]"
    and stays: "enforce_timeout (conn_env os cb) (c, s) = (c, s)" "\<not> is_closed (conn_env os cb) c"
  shows "timeout_loop (conn_env os cb) [0..<fv_capacity (connections s)] s = Some (Inr s)"
    and "remove_closed_connections os cb s = Some (Inr s)"
proof -
  let ?e = "conn_env os cb"
  note s = put_back_single(4,5) [OF inv(1) one]
  have "[0..<fv_capacity (connections s)] = 0 # 1 # [2..<fv_capacity (connections s)]"
    using inv(2) by (simp add: upt_conv_Cons kMaxConnections_def)
  then show "timeout_loop ?e [0..<fv_capacity (connections s)] s = Some (Inr s)"
    using s put_back_same [OF inv(1) one] stays(1) by simp
  have "remove_loop (is_closed ?e) 0 [] (connections s) = Some ([], connections s)"
    using remove_loop_step [OF inv(1), of "is_closed ?e" 0 "[]"] remove_loop_step [OF inv(1), of "is_closed ?e" "Suc 0" "[]"]
      s one stays(2) by simp
  then show "remove_closed_connections os cb s = Some (Inr s)"
    by (simp add: remove_closed_connections_def Let_def)
qed

lemma one_connection_iteration:
  assumes inv: "fv_inv (connections s)" "fv_capacity (connections s) = kMaxConnections"
    and one: "fv_list (connections s) = [c]"
    and poll: "poll_phase os cb s = (ret, revents, s4)" "0 < ret" "\<not> accept_ready revents" "length revents = 2"
    and io: "handle_connection_io (conn_env os cb) (revents ! 1) (c, s4) = Some (Inr (c', s5))"
    and s5: "connections s5 = connections s4"
    and c': "conn_ops c' = kOpen" "os_is_open os (conn_socket c')"
  shows "run_iteration os cb s = Some (Inr (Again (put_back 0 (c', s5))))"
proof -
  let ?e = "conn_env os cb" and ?s6 = "put_back 0 (c', s5)"
  have same: "connections s4 = connections s" using poll_phase_fields(1) [OF poll(1)] .
  have v5: "fv_inv (connections s5)" "fv_list (connections s5) = [c]" using inv one same s5 by simp_all
  note s6 = put_back_single(1-3) [OF v5, of c']
  have "length (build_poll_fds s) - 1 = 1" using one by (simp add: build_poll_fds_def)
  moreover have "fv_at (connections s4) 0 = Some c" "fv_size (connections s4) = 1"
    using put_back_single(4,5) [OF inv(1) one] same by simp_all
  ultimately have io_loop: "io_loop ?e revents [0..<length (build_poll_fds s) - 1] s4 = Some (Inr ?s6)"
    using io poll(4) by simp
  have "fv_capacity (connections ?s6) = kMaxConnections" using s6(3) s5 same inv(2) by simp
  moreover have "\<not> is_closed ?e c'" using c' by (simp add: is_closed_def conn_env_def get_state_def)
  ultimately have "timeout_loop ?e [0..<fv_capacity (connections ?s6)] ?s6 = Some (Inr ?s6)"
    "remove_closed_connections os cb ?s6 = Some (Inr ?s6)"
    using one_connection_settles [OF s6(1) _ s6(2) enforce_timeout_open [OF c'(1)]] by simp_all
  with poll(1-3) io_loop show ?thesis by (simp add: run_iteration_def Let_def)
qed

section \<open>A network between client and reactor\<close>

text \<open>
  The world outside the server is a pair of byte streams: what the client has sent and the server
  not yet read, and the other way round; and whether the client waits to be accepted. \<^verbatim>\<open>poll\<close> reports
  the listening socket readable while the client waits, the client's descriptor 5 readable when
  there is something to read, and writable whenever that was asked for; reading returns all that
  fits, and writing accepts everything.
\<close>

record Wire =
  wire_in :: bytes
  wire_out :: bytes
  wire_knock :: bool

definition wire_events :: "Wire \<Rightarrow> int \<times> u16 \<Rightarrow> u16" where
  "wire_events k fd_ev = (if fst fd_ev = 5 then
     (if wire_in k = [] then 0 else POLLIN) OR (snd fd_ev AND POLLOUT)
     else if wire_knock k then snd fd_ev AND POLLIN else 0)"

definition wire_os :: "Wire Os" where
  "wire_os = \<lparr>
     os_now = (\<lambda>k. (0, k)),
     os_readv = (\<lambda>fd lens k. (RdOk (take (sum_list lens) (wire_in k)), k\<lparr>wire_in := drop (sum_list lens) (wire_in k)\<rparr>)),
     os_writev = (\<lambda>fd bs k. (WrOk (length bs), k\<lparr>wire_out := wire_out k @ bs\<rparr>)),
     os_write = (\<lambda>fd bs k. (WrOk (length bs), k\<lparr>wire_out := wire_out k @ bs\<rparr>)),
     os_set_non_blocking = (\<lambda>fd k. k),
     os_close = (\<lambda>fd k. (-1, k)),
     os_is_open = (\<lambda>fd. 0 \<le> fd),
     os_poll = (\<lambda>fds t k. let revents = map (wire_events k) fds
                            in ((int (length (filter (\<lambda>r. r \<noteq> 0) revents)), revents), k)),
     os_accept = (\<lambda>fd k. if wire_knock k then (AcOk 5, k\<lparr>wire_knock := False\<rparr>) else (AcErr EAGAIN, k)),
     os_close_fd = (\<lambda>fd k. k),
     os_setsockopt = (\<lambda>fd opt v k. k),
     os_last_owner = (\<lambda>c k. True),
     os_socket = (\<lambda>k. (3, k)),
     os_reuse_addr = (\<lambda>fd k. k),
     os_bind = (\<lambda>fd p addr k. (0, k)),
     os_listen = (\<lambda>fd n k. (0, k))\<rparr>"

abbreviation wire_cbs :: "Wire Callbacks" where
  "wire_cbs \<equiv> bench_server_callbacks wire_os"

text \<open>A server with the client as its only connection, open, with \<open>out\<close> in its send buffer.\<close>

definition linked :: "bytes \<Rightarrow> Wire Server \<Rightarrow> bool" where
  "linked out s \<longleftrightarrow> server_sock s = 3 \<and> use_writev s \<and> \<not> wire_knock (outside s) \<and> fv_inv (connections s) \<and>
     fv_capacity (connections s) = kMaxConnections \<and>
     (\<exists>c. fv_list (connections s) = [c] \<and> conn_inv c \<and> conn_ops c = kOpen \<and> conn_socket c = 5 \<and>
        rb_contents (rx_buffer c) = [] \<and> rb_contents (tx_buffer c) = out)"

text \<open>One iteration of the reactor, and the client's socket: sending adds to the stream, receiving
  lets the server run for two iterations when there is nothing to receive yet.\<close>

definition serve :: "Wire Server \<Rightarrow> Wire Server" where
  "serve s = (case run_iteration wire_os wire_cbs s of Some (Inr (Again s')) \<Rightarrow> s' | _ \<Rightarrow> s)"

definition served_twice :: "Wire Server \<Rightarrow> Wire Server" where
  "served_twice s = (if wire_out (outside s) = [] then serve (serve s) else s)"

definition link_net :: "Wire Server Net" where
  "link_net = \<lparr>
     net_send = (\<lambda>bs s. (WrOk (length bs), s\<lparr>outside := (outside s)\<lparr>wire_in := wire_in (outside s) @ bs\<rparr>\<rparr>)),
     net_recv = (\<lambda>n s. let s' = served_twice s; out = wire_out (outside s')
                       in (RdOk (take n out), s'\<lparr>outside := (outside s')\<lparr>wire_out := drop n out\<rparr>\<rparr>))\<rparr>"

lemma wire_poll:
  assumes "fv_list (connections s) = [c]" and "server_sock s = 3" and "conn_socket c = 5" and "\<not> wire_knock (outside s)"
  shows "\<exists>s4. poll_phase wire_os cb s =
      (if (if wire_in (outside s) = [] then 0 else POLLIN) OR (conn_events c AND POLLOUT) = 0 then 0 else 1,
       [0, (if wire_in (outside s) = [] then 0 else POLLIN) OR (conn_events c AND POLLOUT)], s4) \<and>
    outside s4 = outside s \<and> connections s4 = connections s \<and> server_sock s4 = server_sock s \<and> use_writev s4 = use_writev s"
  using assms
  by (simp add: poll_phase_def conn_env_def on_outside_def wire_os_def Let_def build_poll_fds_def wire_events_def
      count_stat_def)

lemma poll_bits: "POLLIN AND POLLOUT = 0" "POLLOUT AND POLLIN = 0" "POLLIN AND POLLIN = POLLIN" "POLLIN \<noteq> 0" "POLLOUT \<noteq> 0"
    "POLLOUT AND POLLOUT = POLLOUT" "(POLLIN OR POLLOUT) AND POLLOUT = POLLOUT"
    "POLLIN AND (POLLERR OR POLLHUP) = 0" "POLLOUT AND (POLLERR OR POLLHUP) = 0"
  by (simp_all add: POLLIN_def POLLOUT_def POLLERR_def POLLHUP_def)

lemma serve_again: "run_iteration wire_os wire_cbs s = Some (Inr (Again s')) \<Longrightarrow> serve s = s'"
  by (simp add: serve_def)

lemma linked_put_back:
  assumes "linked out s" and "connections s1 = connections s" and "server_sock s1 = server_sock s" and "use_writev s1 = use_writev s"
    and "\<not> wire_knock (outside s1)" and "conn_inv c" and "conn_ops c = kOpen" and "conn_socket c = 5"
    and "rb_contents (rx_buffer c) = []" and "rb_contents (tx_buffer c) = out'"
  shows "linked out' (put_back 0 (c, s1))"
  using assms put_back_single(1-3) [of s1 _ c] by (fastforce simp: linked_def put_back_def)

lemma conn_events_tx:
  "conn_events c AND POLLOUT = (if rb_contents (tx_buffer c) = [] then 0 else POLLOUT)"
  using rb_count_contents [of "tx_buffer c"]
  by (auto simp: conn_events_def has_data_to_send_def rb_empty_def poll_bits simp del: length_rb_contents)

lemma serve_read:
  assumes l: "linked [] s" and inp: "wire_in (outside s) = client_stream ps" "ps \<noteq> []" "length (client_stream ps) \<le> 4096"
  shows "linked (answer_stream ps) (serve s)" "outside (serve s) = (outside s)\<lparr>wire_in := []\<rparr>"
proof -
  obtain c where s: "fv_list (connections s) = [c]" "server_sock s = 3" "fv_inv (connections s)"
      "fv_capacity (connections s) = kMaxConnections" "\<not> wire_knock (outside s)"
    and c: "conn_inv c" "conn_ops c = kOpen" "conn_socket c = 5" "rb_contents (rx_buffer c) = []" "rb_contents (tx_buffer c) = []"
    using l by (auto simp: linked_def)
  let ?e = "conn_env wire_os no_callbacks"
  have ne: "wire_in (outside s) \<noteq> []" using inp(1,2) by (cases ps) (auto simp: client_stream_def wire_frame_def header_bytes_def)
  obtain s4 where poll: "poll_phase wire_os wire_cbs s = (1, [0, POLLIN], s4)" and s4: "outside s4 = outside s"
      "connections s4 = connections s" "server_sock s4 = server_sock s" "use_writev s4 = use_writev s"
    using wire_poll [OF s(1,2) c(3) s(5), of wire_cbs] ne by (auto simp: conn_events_tx c(5) poll_bits)
  let ?s5 = "s4\<lparr>outside := (outside s4)\<lparr>wire_in := []\<rparr>\<rparr>"
  have rx: "rb_inv (rx_buffer c)" "rb_kCapacity (rx_buffer c) = 4096" using c(1) by (simp_all add: conn_inv_def kRxBufferSize_def)
  then have "iov_total (rb_fill_iovec_write 2 (rx_buffer c)) = 4096"
    using c(4) by (simp add: rb_fill_iovec_write_total rb_available_contents del: length_rb_contents)
  then have rd: "env_readv ?e (conn_socket c) (map iov_len (rb_fill_iovec_write 2 (rx_buffer c))) s4 =
      (RdOk (client_stream ps), ?s5)"
    using inp s4(1) by (simp add: conn_env_def on_outside_def wire_os_def iov_total_def)
  have "env_now ?e ?s5 = (0, ?s5)" by (simp add: conn_env_def on_outside_def wire_os_def)
  from handle_read_echo [OF refl inp(2,3) c(1,2,4,5) rd this] obtain c' where
    hr: "handle_read (conn_env wire_os wire_cbs) (c, s4) = Some (Inr (ok, c', ?s5))"
    and c': "conn_inv c'" "conn_ops c' = kOpen" "conn_socket c' = 5" "rb_contents (rx_buffer c') = []"
      "rb_contents (tx_buffer c') = answer_stream ps"
    using c(3) by (auto simp: bench_conn_env)
  have io: "handle_connection_io (conn_env wire_os wire_cbs) ([0, POLLIN] ! 1) (c, s4) = Some (Inr (c', ?s5))"
    using hr by (simp add: handle_connection_io_def io_read_def io_write_def io_hangup_def close_if_error_def poll_bits)
  have "serve s = put_back 0 (c', ?s5)"
    using c'(2,3) by (intro serve_again one_connection_iteration [OF s(3,4,1) poll _ _ _ io])
      (simp_all add: accept_ready_def wire_os_def)
  then show "linked (answer_stream ps) (serve s)" "outside (serve s) = (outside s)\<lparr>wire_in := []\<rparr>"
    using linked_put_back [OF l, of ?s5 c'] s4 s(5) c' by (simp_all add: put_back_def)
qed

lemma serve_write:
  assumes l: "linked out s" and out: "out \<noteq> []" and inp: "wire_in (outside s) = []"
  shows "linked [] (serve s)" "outside (serve s) = (outside s)\<lparr>wire_out := wire_out (outside s) @ out\<rparr>"
proof -
  obtain c where s: "fv_list (connections s) = [c]" "server_sock s = 3" "fv_inv (connections s)"
      "fv_capacity (connections s) = kMaxConnections" "use_writev s" "\<not> wire_knock (outside s)"
    and c: "conn_inv c" "conn_ops c = kOpen" "conn_socket c = 5" "rb_contents (rx_buffer c) = []" "rb_contents (tx_buffer c) = out"
    using l by (auto simp: linked_def)
  let ?e = "conn_env wire_os wire_cbs"
  obtain s4 where poll: "poll_phase wire_os wire_cbs s = (1, [0, POLLOUT], s4)" and s4: "outside s4 = outside s"
      "connections s4 = connections s" "server_sock s4 = server_sock s" "use_writev s4 = use_writev s"
    using wire_poll [OF s(1,2) c(3) s(6), of wire_cbs] out inp by (auto simp: conn_events_tx c(5) poll_bits)
  let ?s5 = "s4\<lparr>outside := (outside s4)\<lparr>wire_out := wire_out (outside s4) @ out\<rparr>\<rparr>"
  have tx: "rb_inv (tx_buffer c)" using c(1) by (rule tx_inv)
  have ne: "\<not> rb_empty (tx_buffer c)"
    using out c(5) rb_count_contents [of "tx_buffer c"] by (simp add: rb_empty_def del: length_rb_contents)
  have wr: "env_writev ?e (conn_socket c) (rb_contents (tx_buffer c)) s4 = (WrOk (length out), ?s5)"
    using c(5) by (simp add: conn_env_def on_outside_def wire_os_def)
  let ?st = "set_error kOk (check_low_watermark ?e (c\<lparr>tx_buffer := rb_advance (length out) (tx_buffer c)\<rparr>, ?s5))"
  have hw: "handle_write_vectored ?e (c, s4) = (ok, ?st)"
    using handle_write_vectored_sent [OF tx ne _ wr] out by simp
  have drain: "on_drain ?e = None" by (simp add: conn_env_def bench_server_callbacks_def no_callbacks_def)
  obtain c' where c': "?st = (c', ?s5)" "conn_ops c' = kOpen" "conn_socket c' = 5" "rx_buffer c' = rx_buffer c"
    "tx_buffer c' = rb_advance (length out) (tx_buffer c)"
    using c(2,3) by (auto simp: check_low_watermark_def call_opt_def drain set_error_def)
  have "user_callbacks ?e" by (simp add: bench_conn_env bench_callbacks)
  from handle_write_vectored_steps [OF this, of "(c, s4)"] have inv: "conn_inv c'"
    using conn_steps_inv c(1) hw c'(1) by simp
  have io: "handle_connection_io ?e ([0, POLLOUT] ! 1) (c, s4) = Some (Inr (c', ?s5))"
    using hw c'(1) s(5) s4(4)
    by (simp add: handle_connection_io_def io_read_def io_write_def io_hangup_def close_if_error_def poll_bits)
  have "serve s = put_back 0 (c', ?s5)"
    using c'(2,3) by (intro serve_again one_connection_iteration [OF s(3,4,1) poll _ _ _ io])
      (simp_all add: accept_ready_def wire_os_def)
  then show "linked [] (serve s)" "outside (serve s) = (outside s)\<lparr>wire_out := wire_out (outside s) @ out\<rparr>"
    using linked_put_back [OF l, of ?s5 c'] s4 s(6) c' inv c(4,5) by (simp_all add: put_back_def rb_advance_contents [OF tx])
qed

lemma serve_idle:
  assumes l: "linked [] s" and inp: "wire_in (outside s) = []"
  shows "linked [] (serve s)" "outside (serve s) = outside s"
proof -
  obtain c where s: "fv_list (connections s) = [c]" "server_sock s = 3" "conn_socket c = 5" "rb_contents (tx_buffer c) = []"
    "\<not> wire_knock (outside s)"
    using l by (auto simp: linked_def)
  obtain s4 where poll: "poll_phase wire_os wire_cbs s = (0, [0, 0], s4)" and s4: "outside s4 = outside s"
      "connections s4 = connections s" "server_sock s4 = server_sock s" "use_writev s4 = use_writev s"
    using wire_poll [OF s(1-3,5), of wire_cbs] inp by (auto simp: conn_events_tx s(4))
  have "serve s = s4" using poll by (intro serve_again) (simp add: run_iteration_def)
  with s4 l show "linked [] (serve s)" "outside (serve s) = outside s" by (simp_all add: linked_def)
qed

section \<open>The client's loop over this network\<close>

definition link_pending :: "Wire Server \<Rightarrow> bytes" where
  "link_pending s = wire_out (outside (served_twice s))"

definition link_ready :: "Wire Server \<Rightarrow> bool" where
  "link_ready s \<longleftrightarrow> linked [] s \<and> (wire_in (outside s) = [] \<or>
     wire_out (outside s) = [] \<and> (\<exists>ps. ps \<noteq> [] \<and> wire_in (outside s) = client_stream ps \<and> length (client_stream ps) \<le> 4096))"

lemma answer_stream_Nil: "answer_stream ps = [] \<longleftrightarrow> ps = []"
  by (cases ps) (auto simp: answer_stream_def wire_frame_def header_bytes_def)

lemma served_twice_answers:
  assumes "linked [] s" and "wire_out (outside s) = []" and "wire_in (outside s) = client_stream ps"
    and "ps \<noteq> []" and "length (client_stream ps) \<le> 4096"
  shows "linked [] (served_twice s)" "outside (served_twice s) = \<lparr>wire_in = [], wire_out = answer_stream ps, wire_knock = False\<rparr>"
proof -
  note r = serve_read [OF assms(1,3-5)]
  have "wire_in (outside (serve s)) = []" using r(2) by simp
  note w = serve_write [OF r(1) _ this]
  show "linked [] (served_twice s)" using w(1) assms(2,4) by (simp add: served_twice_def answer_stream_Nil)
  show "outside (served_twice s) = \<lparr>wire_in = [], wire_out = answer_stream ps, wire_knock = False\<rparr>"
    using w(2) r(2) assms(1,2,4) by (cases "outside s") (simp add: served_twice_def answer_stream_Nil linked_def)
qed

lemma served_twice_ready:
  assumes "link_ready s"
  shows "linked [] (served_twice s) \<and> wire_in (outside (served_twice s)) = []"
proof (cases "wire_in (outside s) = []")
  case True
  with assms show ?thesis
    using serve_idle [of s] serve_idle [of "serve s"] by (auto simp: link_ready_def served_twice_def)
next
  case False
  with assms served_twice_answers [of s] show ?thesis by (auto simp: link_ready_def)
qed

lemma linked_outside: "wire_knock k = wire_knock (outside s) \<Longrightarrow> linked out (s\<lparr>outside := k\<rparr>) = linked out s"
  by (simp add: linked_def)

lemma link_pending_idle:
  assumes "linked [] s" and "wire_in (outside s) = []"
  shows "link_pending s = wire_out (outside s)"
  using assms serve_idle [of s] serve_idle [of "serve s"] by (simp add: link_pending_def served_twice_def)

interpretation link: byte_source link_net link_pending link_ready
proof
  fix s n
  assume s: "link_ready s" "link_pending s \<noteq> []" "0 < (n :: nat)"
  let ?s1 = "served_twice s"
  let ?s2 = "?s1\<lparr>outside := (outside ?s1)\<lparr>wire_out := drop n (link_pending s)\<rparr>\<rparr>"
  let ?k = "min n (length (link_pending s))"
  note s1 = served_twice_ready [OF s(1)]
  have "net_recv link_net n s = (RdOk (take ?k (link_pending s)), ?s2)"
    by (simp add: link_net_def link_pending_def Let_def min_def)
  moreover have s2: "linked [] ?s2" "wire_in (outside ?s2) = []" using s1 by (simp_all add: linked_outside)
  have "drop ?k (link_pending s) = drop n (link_pending s)" by (simp add: min_def)
  then have "link_pending ?s2 = drop ?k (link_pending s)"
    using link_pending_idle [OF s2] by simp
  moreover have "link_ready ?s2" using s2 by (simp add: link_ready_def)
  ultimately show "\<exists>k w'. 0 < k \<and> k \<le> n \<and> net_recv link_net n s = (RdOk (take k (link_pending s)), w') \<and>
      link_pending w' = drop k (link_pending s) \<and> link_ready w'"
    using s(2,3) by (intro exI [of _ ?k] exI [of _ ?s2]) simp
qed

text \<open>Between two messages nothing is on its way.\<close>

definition link_quiet :: "Wire Server \<Rightarrow> bool" where
  "link_quiet s \<longleftrightarrow> linked [] s \<and> wire_in (outside s) = [] \<and> wire_out (outside s) = []"

lemma link_quiet_again: "link_ready s \<Longrightarrow> link_pending s = [] \<Longrightarrow> link_quiet s"
  using served_twice_answers [of s] link_pending_idle [of s]
  by (auto simp: link_ready_def link_quiet_def link_pending_def answer_stream_Nil)

lemma bench_round:
  assumes q: "link_quiet s" and fits: "length (wire_frame kText (Some bench_key) p) \<le> 4096"
  shows "\<exists>s1 s2. send_masked link_net p s = Some (True, s1) \<and>
    recv_frame link_net (word_of_nat (length p)) s1 = (True, s2) \<and> link_quiet s2"
proof -
  let ?add = "\<lambda>s bs. s\<lparr>outside := (outside s)\<lparr>wire_in := wire_in (outside s) @ bs\<rparr>\<rparr> :: Wire Server"
  let ?s1 = "?add s (wire_frame kText (Some bench_key) p)"
  have sent: "send_masked link_net p s = Some (True, ?s1)"
    by (rule send_masked_takes [where add = ?add]) (simp_all add: link_net_def)
  have in1: "wire_in (outside ?s1) = client_stream [p]" "wire_out (outside ?s1) = []" "linked [] ?s1"
    "length (client_stream [p]) \<le> 4096"
    using q fits by (simp_all add: link_quiet_def client_stream_def linked_outside)
  note ans = served_twice_answers [OF in1(3,2,1) _ in1(4)]
  have pend: "link_pending ?s1 = wire_frame kText None p @ []"
    using ans(2) by (simp add: link_pending_def answer_stream_def)
  have "link_ready ?s1" unfolding link_ready_def using in1 by (metis list.distinct(1))
  moreover have "length p < 2 ^ 64" using fits wire_frame_sizes(2) [of p kText] by simp
  ultimately obtain s2 where "recv_frame link_net (word_of_nat (length p)) ?s1 = (True, s2)" "link_pending s2 = []" "link_ready s2"
    using link.recv_frame_gets [OF _ pend, of "word_of_nat (length p)"] by auto
  with sent link_quiet_again show ?thesis by blast
qed

text \<open>The client's loop gets every answer, over any number of messages that fit the receive buffer.\<close>

lemma benchmark_completes:
  assumes "link_quiet s" and "length (wire_frame kText (Some bench_key) p) \<le> 4096"
  shows "\<exists>s'. bench_loop link_net ts i n p s = Some (map (\<lambda>j. ts (2 * j + 1) - ts (2 * j)) [i..<i + n], s') \<and> link_quiet s'"
  using assms(1)
proof (induction n arbitrary: i s)
  case (Suc n)
  obtain s1 s2 where "send_masked link_net p s = Some (True, s1)"
    "recv_frame link_net (word_of_nat (length p)) s1 = (True, s2)" "link_quiet s2"
    using bench_round [OF Suc.prems assms(2)] by blast
  moreover have "[i..<i + Suc n] = i # [Suc i..<Suc i + n]" by (simp add: upt_conv_Cons del: upt_Suc)
  ultimately show ?case using Suc.IH [of s2 "Suc i"] by (auto simp del: upt_Suc)
qed simp

end
