(* ===== verification/Bench_Full.thy ===== *)
theory Bench_Full
  imports Bench_Session
begin

text \<open>
  A whole client of the benchmark against the reactor: it connects, is accepted, shakes hands,
  exchanges its messages and leaves.
\<close>

section \<open>Accepting the client\<close>

text \<open>A call of the client that reaches the server: connecting lets the reactor run an iteration.\<close>

definition knock :: "Wire Server \<Rightarrow> Wire Server" where
  "knock s = s\<lparr>outside := (outside s)\<lparr>wire_knock := True\<rparr>\<rparr>"

definition link_sys :: "Wire Server ClientSys" where
  "link_sys = \<lparr>cl_socket = (\<lambda>s. (6, s)), cl_nodelay = (\<lambda>fd s. s),
     cl_connect = (\<lambda>fd p s. (0, serve (knock s))), cl_close = (\<lambda>fd s. s)\<rparr>"

text \<open>A server without connections on a silent network, and with one that has not sent its request yet.\<close>

definition unconnected :: "Wire Server \<Rightarrow> bool" where
  "unconnected s \<longleftrightarrow> server_sock s = 3 \<and> use_writev s \<and> outside s = \<lparr>wire_in = [], wire_out = [], wire_knock = False\<rparr> \<and>
     fv_inv (connections s) \<and> fv_capacity (connections s) = kMaxConnections \<and> fv_list (connections s) = [] \<and>
     active_connections (stats s) = 0 \<and> 0 < max_connections s"

definition waiting :: "Wire Server \<Rightarrow> bool" where
  "waiting s \<longleftrightarrow> server_sock s = 3 \<and> use_writev s \<and> outside s = \<lparr>wire_in = [], wire_out = [], wire_knock = False\<rparr> \<and>
     fv_inv (connections s) \<and> fv_capacity (connections s) = kMaxConnections \<and>
     (\<exists>c. fv_list (connections s) = [c] \<and> conn_inv c \<and> conn_ops c = kHandshaking \<and> conn_socket c = 5 \<and> created_at c = 0 \<and>
        rb_contents (rx_buffer c) = [] \<and> rb_contents (tx_buffer c) = [])"

lemma wire_calls:
  "env_now (conn_env wire_os cb) s = (0, s)" "change_outside (os_set_non_blocking wire_os fd) s = s"
  "change_outside (os_setsockopt wire_os fd opt v) s = s"
  by (simp_all add: conn_env_def on_outside_def change_outside_def wire_os_def)

lemma wire_tuning: "apply_tcp_tuning wire_os fd s = s"
proof -
  have "fold (\<lambda>(opt, v). change_outside (os_setsockopt wire_os fd opt v)) opts s = s" for opts
    by (induction opts) (auto simp: wire_calls)
  then show ?thesis by (simp add: apply_tcp_tuning_def Let_def)
qed

definition accepted :: "u64 \<Rightarrow> Connection" where
  "accepted nid = \<lparr>conn_id = nid, conn_socket = 5,
     rx_buffer = rb_init kRxBufferSize 0, tx_buffer = rb_init kTxBufferSize 0,
     conn_ops = kHandshaking, handshake_completed = False, sec_websocket_key = [],
     last_error_code = kOk, write_paused = False, created_at = 0, closing_at = 0, last_activity = 0\<rparr>"

lemma wire_ctor: "Connection_ctor (conn_env wire_os cb) 5 nid s = (nid + 1, accepted nid, s)"
  by (simp add: Connection_ctor_def accepted_def conn_env_def on_outside_def change_outside_def wire_os_def)

lemma accepted_inv: "conn_inv (accepted nid)"
  using ctor_inv [of "conn_env wire_os no_callbacks" 5 nid] by (simp add: wire_ctor)

lemma wire_accept:
  assumes "fv_inv (connections s)" and "fv_list (connections s) = []" and "fv_capacity (connections s) = kMaxConnections"
    and "active_connections (stats s) = 0" and "0 < max_connections s" and "wire_knock (outside s)"
  shows "\<exists>s'. handle_accept wire_os cb s = s' \<and> outside s' = (outside s)\<lparr>wire_knock := False\<rparr> \<and>
    connections s' = snd (fv_push_back (accepted (next_conn_id s)) (connections s)) \<and>
    server_sock s' = server_sock s \<and> use_writev s' = use_writev s"
proof -
  let ?s1 = "s\<lparr>outside := (outside s)\<lparr>wire_knock := False\<rparr>\<rparr>"
  have acc: "on_outside (os_accept wire_os (server_sock s)) s = (AcOk 5, ?s1)"
    using assms(6) by (simp add: on_outside_def wire_os_def)
  have size: "fv_size (connections s) = 0" using fv_list_length [OF assms(1)] assms(2) by simp
  have "\<not> (word_of_nat (fv_size (connections s)) \<ge> max_connections s \<or> fv_full (connections s))"
    using size assms(3,5) by (simp add: fv_full_def kMaxConnections_def)
  moreover have "\<not> is_overloaded (max_connections s) (stats s)" using assms(4) by (simp add: is_overloaded_def)
  ultimately show ?thesis using acc
    by (simp add: handle_accept_def accept_connection_def Let_def wire_calls wire_tuning wire_ctor count_stat_def)
qed

lemma serve_accept:
  assumes "unconnected s" shows "waiting (serve (knock s))"
proof -
  have u: "server_sock s = 3" "use_writev s" "outside s = \<lparr>wire_in = [], wire_out = [], wire_knock = False\<rparr>"
    "fv_inv (connections s)" "fv_capacity (connections s) = kMaxConnections" "fv_list (connections s) = []"
    "active_connections (stats s) = 0" "0 < max_connections s" using assms by (simp_all add: unconnected_def)
  let ?e = "conn_env wire_os wire_cbs" and ?fds = "build_poll_fds (knock s)"
  have fds: "?fds = [(3, POLLIN)]" using u(1,6) by (simp add: build_poll_fds_def knock_def)
  obtain s4 where poll: "poll_phase wire_os wire_cbs (knock s) = (1, [POLLIN], s4)"
    and s4: "outside s4 = (outside s)\<lparr>wire_knock := True\<rparr>" "connections s4 = connections s"
      "active_connections (stats s4) = 0" "max_connections s4 = max_connections s"
      "server_sock s4 = 3" "use_writev s4"
    using u by (auto simp: poll_phase_def conn_env_def on_outside_def wire_os_def Let_def fds wire_events_def poll_bits
        count_stat_def record_latency_def knock_def build_poll_fds_def)
  obtain s5 where s5: "handle_accept wire_os wire_cbs s4 = s5" "outside s5 = \<lparr>wire_in = [], wire_out = [], wire_knock = False\<rparr>"
      "connections s5 = snd (fv_push_back (accepted (next_conn_id s4)) (connections s))" "server_sock s5 = 3" "use_writev s5"
    using wire_accept [of s4 wire_cbs] s4 u by auto
  let ?c = "accepted (next_conn_id s4)"
  have v5: "fv_inv (connections s5)" "fv_capacity (connections s5) = kMaxConnections" "fv_list (connections s5) = [?c]"
    using fvv.push_keeps [OF u(4), of ?c] fvv.push_room [OF u(4), of ?c] u(5,6) s5(3) by (auto simp: kMaxConnections_def)
  have "enforce_timeout ?e (?c, s5) = (?c, s5)"
    by (simp add: enforce_timeout_def is_handshake_timed_out_def is_close_timed_out_def get_state_def accepted_def
        wire_calls elapsed_ms_def kHandshakeTimeout_def Let_def)
  moreover have "\<not> is_closed ?e ?c" by (simp add: is_closed_def accepted_def get_state_def conn_env_def wire_os_def)
  ultimately have "run_iteration wire_os wire_cbs (knock s) = Some (Inr (Again s5))"
    using one_connection_settles [OF v5, of wire_os wire_cbs] poll s5(1)
    by (simp add: run_iteration_def Let_def accept_ready_def poll_bits fds)
  then have "serve (knock s) = s5" by (rule serve_again)
  moreover have "rb_contents (rx_buffer ?c) = []" "rb_contents (tx_buffer ?c) = []"
    by (simp_all add: accepted_def rb_contents_init)
  ultimately show ?thesis using s5 v5 accepted_inv by (auto simp: waiting_def accepted_def)
qed

section \<open>The upgrade\<close>

lemma handle_read_request:
  assumes cb: "user_callbacks e" "on_open e = None"
    and c: "conn_inv c" "conn_ops c = kHandshaking" "rb_contents (rx_buffer c) = []"
    and rd: "env_readv e (conn_socket c) (map iov_len (rb_fill_iovec_write 2 (rx_buffer c))) w = (RdOk bench_request, w1)"
    and now: "env_now e w1 = (t, w2)"
  shows "\<exists>c'. handle_read e (c, w) = Some (Inr (ok, c', w2)) \<and> conn_inv c' \<and> conn_ops c' = kOpen \<and>
    conn_socket c' = conn_socket c \<and> rb_contents (rx_buffer c') = [] \<and> rb_contents (tx_buffer c') = bench_response"
proof -
  let ?c1 = "c\<lparr>rx_buffer := rb_receive bench_request (rx_buffer c), last_activity := t\<rparr>"
  have len: "bench_request \<noteq> [] \<and> length bench_request \<le> 4096" by code_simp
  note read = handle_read_data [OF c(1) rd _ _ now refl]
  obtain c' where c': "parse_handshake ?c1 = (ok, c')" "rb_contents (rx_buffer c') = []" "rb_contents (tx_buffer c') = bench_response"
    "conn_ops c' = kHandshaking" "conn_socket c' = conn_socket c"
    using bench_request_accepted [of ?c1] read(1,2) len c(2,3) by auto
  let ?c2 = "fst (set_error kOk (transition_to_state e kOpen (c', w2)))"
  have hr: "handle_read e (c, w) = Some (Inr (ok, ?c2, w2))"
    using read(3) len c(2,3) c'(1) cb(2)
    by (simp add: kHandshakeOps_def handshake_on_data_def set_error_def call_opt_def)
  from handle_read_steps [OF cb(1) hr] have "conn_inv ?c2" using conn_steps_inv c(1) by simp
  then show ?thesis using hr c' cb(2) by (intro exI [of _ ?c2]) (simp add: set_error_def call_opt_def)
qed

lemma serve_upgrade:
  assumes w: "waiting s" and s1: "s1 = s\<lparr>outside := (outside s)\<lparr>wire_in := bench_request\<rparr>\<rparr>"
  shows "linked bench_response (serve s1)" "outside (serve s1) = outside s"
proof -
  let ?e = "conn_env wire_os wire_cbs"
  obtain c where s: "fv_list (connections s1) = [c]" "server_sock s1 = 3" "fv_inv (connections s1)"
      "fv_capacity (connections s1) = kMaxConnections" "\<not> wire_knock (outside s1)" "use_writev s1"
    and c: "conn_inv c" "conn_ops c = kHandshaking" "conn_socket c = 5" "rb_contents (rx_buffer c) = []" "rb_contents (tx_buffer c) = []"
    using w s1 by (auto simp: waiting_def)
  have o1: "outside s1 = \<lparr>wire_in = bench_request, wire_out = [], wire_knock = False\<rparr>" using w s1 by (simp add: waiting_def)
  have len: "bench_request \<noteq> [] \<and> length bench_request \<le> 4096" by code_simp
  obtain s4 where poll: "poll_phase wire_os wire_cbs s1 = (1, [0, POLLIN], s4)" and s4: "outside s4 = outside s1"
      "connections s4 = connections s1" "server_sock s4 = server_sock s1" "use_writev s4 = use_writev s1"
    using wire_poll [OF s(1,2) c(3) s(5), of wire_cbs] len by (auto simp: conn_events_tx c(5) poll_bits o1)
  let ?s5 = "s4\<lparr>outside := outside s\<rparr>"
  have rx: "rb_inv (rx_buffer c)" "rb_kCapacity (rx_buffer c) = 4096" using c(1) by (simp_all add: conn_inv_def kRxBufferSize_def)
  then have "iov_total (rb_fill_iovec_write 2 (rx_buffer c)) = 4096"
    using c(4) by (simp add: rb_fill_iovec_write_total rb_available_contents del: length_rb_contents)
  then have rd: "env_readv ?e (conn_socket c) (map iov_len (rb_fill_iovec_write 2 (rx_buffer c))) s4 = (RdOk bench_request, ?s5)"
    using len s4(1) o1 w by (simp add: conn_env_def on_outside_def wire_os_def iov_total_def waiting_def)
  have cb: "user_callbacks ?e" "on_open ?e = None"
    by (simp_all add: bench_conn_env bench_callbacks) (simp add: bench_env_def quiet_env_def)
  obtain c' where hr: "handle_read ?e (c, s4) = Some (Inr (ok, c', ?s5))"
    and c': "conn_inv c'" "conn_ops c' = kOpen" "conn_socket c' = 5" "rb_contents (rx_buffer c') = []"
      "rb_contents (tx_buffer c') = bench_response"
    using handle_read_request [OF cb c(1,2,4) rd wire_calls(1)] c(3) by auto
  have io: "handle_connection_io ?e ([0, POLLIN] ! 1) (c, s4) = Some (Inr (c', ?s5))"
    using hr by (simp add: handle_connection_io_def io_read_def io_write_def io_hangup_def close_if_error_def poll_bits)
  have served: "serve s1 = put_back 0 (c', ?s5)"
    using c'(2,3) by (intro serve_again one_connection_iteration [OF s(3,4,1) poll _ _ _ io])
      (simp_all add: accept_ready_def wire_os_def)
  then show "outside (serve s1) = outside s" by (simp add: put_back_def)
  have "fv_inv (connections ?s5)" "fv_list (connections ?s5) = [c]" using s s4 by simp_all
  from put_back_single(1-3) [OF this, of c'] served show "linked bench_response (serve s1)"
    using c' s s4 w by (auto simp: linked_def put_back_def waiting_def)
qed

lemma link_handshake:
  assumes "waiting s"
  shows "\<exists>s'. client_handshake link_net s = (True, s') \<and> link_quiet s'"
proof -
  let ?s1 = "s\<lparr>outside := (outside s)\<lparr>wire_in := bench_request\<rparr>\<rparr>"
  note up = serve_upgrade [OF assms refl]
  have o: "outside s = \<lparr>wire_in = [], wire_out = [], wire_knock = False\<rparr>" using assms by (simp add: waiting_def)
  have "bench_response \<noteq> []" using length_response [of bench_client_key] by force
  note wr = serve_write [OF up(1) this]
  let ?s2 = "serve (serve ?s1)"
  have s2: "linked [] ?s2" "outside ?s2 = \<lparr>wire_in = [], wire_out = bench_response, wire_knock = False\<rparr>"
    using wr up(2) o by simp_all
  let ?s3 = "?s2\<lparr>outside := (outside ?s2)\<lparr>wire_out := []\<rparr>\<rparr>"
  have send: "net_send link_net bench_request s = (WrOk (length bench_request), ?s1)" using o by (simp add: link_net_def)
  have "net_recv link_net 511 ?s1 = (RdOk bench_response, ?s3)"
    using s2(2) o by (simp add: link_net_def served_twice_def Let_def length_response)
  then have "client_handshake link_net s = (True, ?s3)"
    using send handshake_recv_response [of link_net ?s1 bench_client_key ?s3] response_101 by (simp add: client_handshake_def)
  moreover have "link_quiet ?s3" using s2 by (simp add: link_quiet_def linked_outside)
  ultimately show ?thesis by blast
qed

section \<open>The session\<close>

lemma configured_unconnected:
  assumes "Server_ctor wire_os nid p addr \<lparr>wire_in = [], wire_out = [], wire_knock = False\<rparr> = Inr s"
  shows "unconnected (bench_configure s)"
  using assms
  by (auto simp: Server_ctor_def Let_def wire_os_def unconnected_def bench_configure_def set_poll_timeout_ms_def
      set_max_connections_def set_tcp_tuning_def fv_inv_def fv_list_def fv_capacity_def
      fv_init_def stats_init_def kMaxConnections_def)

lemma masked_text_length: "length p \<le> 4088 \<Longrightarrow> length (wire_frame kText (Some bench_key) p) \<le> 4096"
  by (auto simp: wire_frame_def header_bytes_def bench_key_def word_less_nat_alt unat_of_nat)



end
