(* ===== verification/Percentile.thy ===== *)
theory Percentile
  imports Main "HOL-Library.Multiset"
begin

text \<open>
  The order statistics that \<^verbatim>\<open>src/examples/benchmark_echo.cpp\<close> and
  \<^verbatim>\<open>src/examples/perf_server.cpp\<close> report: an element of the sorted samples at a position computed
  by integer division.
\<close>

text \<open>\<^verbatim>\<open>v[v.size() * q / 100]\<close> after \<^verbatim>\<open>std::sort\<close>; \<^const>\<open>None\<close> is an access outside the vector.\<close>

definition nth_checked :: "'a list \<Rightarrow> nat \<Rightarrow> 'a option" where
  "nth_checked xs i = (if i < length xs then Some (xs ! i) else None)"

definition percentile :: "nat \<Rightarrow> 'a::linorder list \<Rightarrow> 'a option" where
  "percentile q xs = nth_checked (sort xs) (length xs * q div 100)"

text \<open>
  What makes \<open>v\<close> a \<open>q\<close>-th percentile of \<open>xs\<close>: it is one of them, at most \<open>q\<close> percent are below it,
  and more than \<open>q\<close> percent are not above it.
\<close>

definition is_percentile :: "nat \<Rightarrow> 'a::linorder list \<Rightarrow> 'a \<Rightarrow> bool" where
  "is_percentile q xs v \<longleftrightarrow> v \<in> set xs \<and>
     100 * length (filter (\<lambda>x. x < v) xs) \<le> q * length xs \<and>
     q * length xs < 100 * length (filter (\<lambda>x. x \<le> v) xs)"

lemma length_filter_sort: "length (filter P (sort xs)) = length (filter P xs)"
proof -
  have "mset (filter P (sort xs)) = mset (filter P xs)" by simp
  then show ?thesis by (rule mset_eq_length)
qed

lemma count_below:
  assumes "sorted ys" and "i < length ys"
  shows "length (filter (\<lambda>x. x < ys ! i) ys) \<le> i" and "i < length (filter (\<lambda>x. x \<le> ys ! i) ys)"
proof -
  have "filter (\<lambda>x. x < ys ! i) (drop i ys) = []"
    using assms by (auto simp: filter_empty_conv in_set_conv_nth not_less sorted_iff_nth_mono)
  then have "filter (\<lambda>x. x < ys ! i) ys = filter (\<lambda>x. x < ys ! i) (take i ys)"
    by (metis append_take_drop_id filter_append append_Nil2)
  then show "length (filter (\<lambda>x. x < ys ! i) ys) \<le> i"
    using length_filter_le [of "\<lambda>x. x < ys ! i" "take i ys"] by simp
  have "filter (\<lambda>x. x \<le> ys ! i) (take (Suc i) ys) = take (Suc i) ys"
    using assms by (auto simp: filter_id_conv in_set_conv_nth sorted_iff_nth_mono)
  then have "Suc i \<le> length (filter (\<lambda>x. x \<le> ys ! i) ys)"
    using assms(2) by (metis append_take_drop_id filter_append le_add1 length_append length_take min.absorb2 Suc_leI)
  then show "i < length (filter (\<lambda>x. x \<le> ys ! i) ys)" by simp
qed

lemma percentile_is:
  assumes "xs \<noteq> []" and "q < 100"
  shows "\<exists>v. percentile q xs = Some v \<and> is_percentile q xs v"
proof -
  let ?i = "length xs * q div 100" and ?ys = "sort xs"
  have "length xs * q < length xs * 100" using assms by simp
  then have i: "?i < length ?ys" by (simp add: less_mult_imp_div_less)
  have "?ys ! ?i \<in> set xs" using nth_mem [OF i] by simp
  moreover note count_below [OF sorted_sort i]
  moreover have "100 * ?i \<le> length xs * q" "length xs * q < 100 * (?i + 1)"
    using dividend_less_times_div [of 100 "length xs * q"] by simp_all
  ultimately have "is_percentile q xs (?ys ! ?i)"
    by (auto simp: is_percentile_def length_filter_sort mult.commute)
  with i show ?thesis by (simp add: percentile_def nth_checked_def)
qed

lemma percentile_mono:
  assumes "percentile p xs = Some v" and "percentile q xs = Some w" and "p \<le> q"
  shows "v \<le> w"
proof -
  have "length xs * p div 100 \<le> length xs * q div 100" using assms(3) by (simp add: div_le_mono)
  with assms(1,2) show ?thesis
    by (auto simp: percentile_def nth_checked_def sorted_nth_mono split: if_splits)
qed

lemma sort_ends:
  assumes "xs \<noteq> []"
  shows "hd (sort xs) = Min (set xs)" and "last (sort xs) = Max (set xs)"
proof -
  have ne: "sort xs \<noteq> []" using assms by (metis length_0_conv length_sort)
  have "hd (sort xs) \<le> x" "x \<le> last (sort xs)" if "x \<in> set xs" for x
  proof -
    from that have "x \<in> set (sort xs)" by simp
    then obtain i where i: "i < length (sort xs)" "x = sort xs ! i" by (metis in_set_conv_nth)
    then show "hd (sort xs) \<le> x" "x \<le> last (sort xs)"
      using ne by (auto simp: hd_conv_nth last_conv_nth intro!: sorted_nth_mono)
  qed
  moreover have "hd (sort xs) \<in> set xs" "last (sort xs) \<in> set xs"
    using hd_in_set [OF ne] last_in_set [OF ne] by simp_all
  ultimately show "hd (sort xs) = Min (set xs)" "last (sort xs) = Max (set xs)"
    by (auto intro: Min_eqI [symmetric] Max_eqI [symmetric])
qed

end
