(* ===== verification/Bench_Driver.thy ===== *)
theory Bench_Driver
  imports Percentile
begin

text \<open>
  \<^verbatim>\<open>run_echo_benchmark\<close> of \<^verbatim>\<open>src/examples/benchmark_echo.cpp\<close>: the client threads, the barrier they
  wait at, and the thread that releases and joins them, as a step relation over all
  interleavings; then the aggregation of the latencies.
\<close>

section \<open>Aggregating the latencies\<close>

text \<open>
  The members of \<^verbatim>\<open>BenchResult\<close> that are counts or samples. Latencies are nanoseconds, before the
  division by 1000.0, which keeps their order; throughput, elapsed time and average are
  floating-point quotients and left out.
\<close>

record BenchResult =
  res_total_messages :: nat
  res_min :: int
  res_max :: int
  res_p50 :: int
  res_p99 :: int

definition result_zero :: BenchResult where
  "result_zero = \<lparr>res_total_messages = 0, res_min = 0, res_max = 0, res_p50 = 0, res_p99 = 0\<rparr>"

definition aggregate :: "int list list \<Rightarrow> BenchResult option" where
  "aggregate all_latencies =
     (let merged = concat all_latencies in
      if merged = [] then Some result_zero
      else let merged = sort merged in
        (case (nth_checked merged (length merged * 50 div 100), nth_checked merged (length merged * 99 div 100)) of
           (Some p50, Some p99) \<Rightarrow>
             Some \<lparr>res_total_messages = length merged, res_min = hd merged, res_max = last merged,
                   res_p50 = p50, res_p99 = p99\<rparr>
         | _ \<Rightarrow> None))"

section \<open>The threads\<close>

text \<open>
  \<open>GaveUp\<close> is the early return after a failed connect or handshake. The main thread waits for the
  counter, joins the threads in order and then aggregates.
\<close>

datatype ThreadState = Connecting | GaveUp | AtBarrier | Measuring | Returned
datatype DriverPhase = WaitReady | Joining nat | Reported "BenchResult option"

record Driver =
  threads :: "ThreadState list"
  latencies :: "int list list"
  ready_count :: nat
  go :: bool
  phase :: DriverPhase

definition driver_init :: "nat \<Rightarrow> Driver" where
  "driver_init num_clients = \<lparr>threads = replicate num_clients Connecting,
     latencies = replicate num_clients [], ready_count = 0, go = False, phase = WaitReady\<rparr>"

text \<open>
  \<open>outs ! i\<close> is what client \<open>i\<close> experiences: whether it connects and completes the handshake, and
  the latencies its loop records.
\<close>

inductive driver_step :: "(bool \<times> int list) list \<Rightarrow> Driver \<Rightarrow> Driver \<Rightarrow> bool" for outs where
  ds_ready: "i < length (threads d) \<Longrightarrow> threads d ! i = Connecting \<Longrightarrow> fst (outs ! i) \<Longrightarrow>
    driver_step outs d (d\<lparr>threads := (threads d)[i := AtBarrier], ready_count := ready_count d + 1\<rparr>)"
| ds_fail: "i < length (threads d) \<Longrightarrow> threads d ! i = Connecting \<Longrightarrow> \<not> fst (outs ! i) \<Longrightarrow>
    driver_step outs d (d\<lparr>threads := (threads d)[i := GaveUp]\<rparr>)"
| ds_start: "i < length (threads d) \<Longrightarrow> threads d ! i = AtBarrier \<Longrightarrow> go d \<Longrightarrow>
    driver_step outs d (d\<lparr>threads := (threads d)[i := Measuring]\<rparr>)"
| ds_measure: "i < length (threads d) \<Longrightarrow> threads d ! i = Measuring \<Longrightarrow>
    driver_step outs d (d\<lparr>threads := (threads d)[i := Returned], latencies := (latencies d)[i := snd (outs ! i)]\<rparr>)"
| ds_go: "phase d = WaitReady \<Longrightarrow> length (threads d) \<le> ready_count d \<Longrightarrow>
    driver_step outs d (d\<lparr>go := True, phase := Joining 0\<rparr>)"
| ds_join: "phase d = Joining k \<Longrightarrow> k < length (threads d) \<Longrightarrow> threads d ! k \<in> {GaveUp, Returned} \<Longrightarrow>
    driver_step outs d (d\<lparr>phase := Joining (k + 1)\<rparr>)"
| ds_report: "phase d = Joining (length (threads d)) \<Longrightarrow>
    driver_step outs d (d\<lparr>phase := Reported (aggregate (latencies d))\<rparr>)"

abbreviation driver_steps :: "(bool \<times> int list) list \<Rightarrow> Driver \<Rightarrow> Driver \<Rightarrow> bool" where
  "driver_steps outs \<equiv> (driver_step outs)\<^sup>*\<^sup>*"

inductive_cases driver_stepE: "driver_step outs d d'"

section \<open>Invariant of the driver\<close>

fun past_connect :: "ThreadState \<Rightarrow> bool" where
  "past_connect Connecting = False"
| "past_connect GaveUp = False"
| "past_connect _ = True"

fun phase_inv :: "(bool \<times> int list) list \<Rightarrow> Driver \<Rightarrow> DriverPhase \<Rightarrow> bool" where
  "phase_inv outs d WaitReady = (\<not> go d)"
| "phase_inv outs d (Joining k) = (go d \<and> k \<le> length outs \<and> (\<forall>j < k. threads d ! j = Returned))"
| "phase_inv outs d (Reported r) =
     (go d \<and> (\<forall>j < length outs. threads d ! j = Returned) \<and> r = aggregate (map snd outs))"

definition driver_inv :: "(bool \<times> int list) list \<Rightarrow> Driver \<Rightarrow> bool" where
  "driver_inv outs d \<longleftrightarrow>
     length (threads d) = length outs \<and> length (latencies d) = length outs \<and>
     ready_count d = length (filter past_connect (threads d)) \<and>
     (\<forall>i < length outs.
        (past_connect (threads d ! i) \<longrightarrow> fst (outs ! i)) \<and>
        (threads d ! i = GaveUp \<longrightarrow> \<not> fst (outs ! i)) \<and>
        (if go d then past_connect (threads d ! i) else threads d ! i \<notin> {Measuring, Returned}) \<and>
        latencies d ! i = (if threads d ! i = Returned then snd (outs ! i) else [])) \<and>
     phase_inv outs d (phase d)"

lemma driver_init_inv: "driver_inv outs (driver_init (length outs))"
  by (simp add: driver_inv_def driver_init_def)

lemma length_filter_update:
  assumes "i < length xs"
  shows "length (filter P (xs[i := y])) + (if P (xs ! i) then 1 else 0) =
    length (filter P xs) + (if P y then 1 else 0)"
  using assms
proof (induction xs arbitrary: i)
  case (Cons x xs)
  then show ?case by (cases i) auto
qed simp

lemma all_past:
  assumes "length xs \<le> length (filter P xs)" and "i < length xs"
  shows "P (xs ! i)"
proof -
  from assms(1) have "filter P xs = xs" by (metis filter_True length_filter_less linorder_not_less)
  then show ?thesis using assms(2) by (metis filter_id_conv nth_mem)
qed

lemma driver_step_inv:
  assumes "driver_step outs d d'" and inv: "driver_inv outs d"
  shows "driver_inv outs d'"
  using assms(1)
proof cases
  case (ds_ready i)
  then have "\<not> go d" using inv by (force simp: driver_inv_def)
  with ds_ready inv length_filter_update [of i "threads d" past_connect AtBarrier] show ?thesis
    by (cases "phase d") (auto simp: driver_inv_def nth_list_update)
next
  case (ds_fail i)
  then have "\<not> go d" using inv by (force simp: driver_inv_def)
  with ds_fail inv length_filter_update [of i "threads d" past_connect GaveUp] show ?thesis
    by (cases "phase d") (auto simp: driver_inv_def nth_list_update)
next
  case (ds_start i)
  with inv length_filter_update [of i "threads d" past_connect Measuring] show ?thesis
    by (cases "phase d") (auto simp: driver_inv_def nth_list_update)
next
  case (ds_measure i)
  with inv length_filter_update [of i "threads d" past_connect Returned] show ?thesis
    by (cases "phase d") (auto simp: driver_inv_def nth_list_update)
next
  case ds_go
  then have "past_connect (threads d ! i)" if "i < length outs" for i
    using inv that by (auto simp: driver_inv_def intro: all_past)
  with ds_go inv show ?thesis by (auto simp: driver_inv_def)
next
  case (ds_join k)
  with inv have "threads d ! k = Returned" by (force simp: driver_inv_def)
  with ds_join inv show ?thesis by (auto simp: driver_inv_def less_Suc_eq)
next
  case ds_report
  with inv have "latencies d = map snd outs" by (intro nth_equalityI) (auto simp: driver_inv_def)
  with ds_report inv show ?thesis by (auto simp: driver_inv_def)
qed

lemma driver_steps_inv: "driver_steps outs (driver_init (length outs)) d \<Longrightarrow> driver_inv outs d"
  by (induction rule: rtranclp_induct) (auto intro: driver_init_inv driver_step_inv)

section \<open>Progress\<close>

fun thread_work :: "ThreadState \<Rightarrow> nat" where
  "thread_work Connecting = 3"
| "thread_work AtBarrier = 2"
| "thread_work Measuring = 1"
| "thread_work _ = 0"

fun phase_work :: "nat \<Rightarrow> DriverPhase \<Rightarrow> nat" where
  "phase_work n WaitReady = n + 2"
| "phase_work n (Joining k) = n + 1 - k"
| "phase_work n (Reported r) = 0"

definition driver_work :: "Driver \<Rightarrow> nat" where
  "driver_work d = sum_list (map thread_work (threads d)) + phase_work (length (threads d)) (phase d)"

lemma sum_list_map_update:
  "i < length xs \<Longrightarrow> sum_list (map f (xs[i := y])) + f (xs ! i) = sum_list (map f xs) + (f y :: nat)"
proof (induction xs arbitrary: i)
  case (Cons x xs)
  then show ?case by (cases i) (auto simp: algebra_simps)
qed simp

lemma driver_step_work:
  assumes "driver_step outs d d'" and "driver_inv outs d"
  shows "driver_work d' < driver_work d"
  using assms(1)
proof cases
  case (ds_ready i)
  with sum_list_map_update [of i "threads d" thread_work AtBarrier] show ?thesis by (simp add: driver_work_def)
next
  case (ds_fail i)
  with sum_list_map_update [of i "threads d" thread_work GaveUp] show ?thesis by (simp add: driver_work_def)
next
  case (ds_start i)
  with sum_list_map_update [of i "threads d" thread_work Measuring] show ?thesis by (simp add: driver_work_def)
next
  case (ds_measure i)
  with sum_list_map_update [of i "threads d" thread_work Returned] show ?thesis by (simp add: driver_work_def)
qed (simp_all add: driver_work_def)

lemma driver_run_work:
  assumes "(driver_step outs ^^ n) (driver_init (length outs)) d"
  shows "n + driver_work d \<le> driver_work (driver_init (length outs)) \<and> driver_steps outs (driver_init (length outs)) d"
  using assms
proof (induction n arbitrary: d)
  case (Suc n)
  then obtain d1 where d1: "(driver_step outs ^^ n) (driver_init (length outs)) d1" "driver_step outs d1 d" by auto
  with Suc.IH [OF d1(1)] driver_steps_inv [of outs d1] driver_step_work [OF d1(2)] show ?case
    by (auto intro: rtranclp.rtrancl_into_rtrancl)
qed simp

lemma driver_init_work: "driver_work (driver_init n) = 4 * n + 2"
  by (simp add: driver_work_def driver_init_def sum_list_replicate)

lemma driver_not_stuck:
  assumes inv: "driver_inv outs d" and ok: "\<forall>out \<in> set outs. fst out" and "\<And>r. phase d \<noteq> Reported r"
  shows "\<exists>d'. driver_step outs d d'"
proof -
  have len: "length (threads d) = length outs" and ok': "i < length outs \<Longrightarrow> fst (outs ! i)" for i
    using inv ok by (simp_all add: driver_inv_def)
  show ?thesis
  proof (cases "\<exists>i < length outs. threads d ! i = Connecting")
    case True
    with len ok' show ?thesis by (metis driver_step.ds_ready)
  next
    case False
    have "threads d ! i \<noteq> GaveUp" if "i < length outs" for i
      using inv ok' [OF that] that by (auto simp: driver_inv_def)
    with False have past: "past_connect (threads d ! i)" if "i < length outs" for i
      using that by (cases "threads d ! i") auto
    show ?thesis
    proof (cases "phase d")
      case WaitReady
      have "filter past_connect (threads d) = threads d"
        using past len by (auto simp: filter_id_conv in_set_conv_nth)
      with inv have "length (threads d) \<le> ready_count d" by (simp add: driver_inv_def)
      with WaitReady show ?thesis by (blast intro: driver_step.ds_go)
    next
      case (Joining k)
      then have k: "k \<le> length outs" "go d" using inv by (auto simp: driver_inv_def)
      show ?thesis
      proof (cases "k = length outs")
        case True
        with Joining len show ?thesis by (metis driver_step.ds_report)
      next
        case False
        with k have kl: "k < length (threads d)" using len by simp
        with past [of k] len have "threads d ! k \<in> {AtBarrier, Measuring, Returned}" by (cases "threads d ! k") auto
        with kl k(2) Joining show ?thesis
          by (blast intro: driver_step.ds_start driver_step.ds_measure driver_step.ds_join)
      qed
    qed (use assms(3) in blast)
  qed
qed

section \<open>What the driver guarantees\<close>


text \<open>A run with one client that records two latencies.\<close>

definition sample_outs :: "(bool \<times> int list) list" where
  "sample_outs = [(True, [5000, 3000])]"

definition sample_driver :: "ThreadState \<Rightarrow> int list \<Rightarrow> nat \<Rightarrow> bool \<Rightarrow> DriverPhase \<Rightarrow> Driver" where
  "sample_driver t ls r g ph = \<lparr>threads = [t], latencies = [ls], ready_count = r, go = g, phase = ph\<rparr>"

lemma sample_driver_steps:
  "driver_init (length sample_outs) = sample_driver Connecting [] 0 False WaitReady"
  "driver_step sample_outs (sample_driver Connecting [] 0 False WaitReady) (sample_driver AtBarrier [] 1 False WaitReady)"
  "driver_step sample_outs (sample_driver AtBarrier [] 1 False WaitReady) (sample_driver AtBarrier [] 1 True (Joining 0))"
  "driver_step sample_outs (sample_driver AtBarrier [] 1 True (Joining 0)) (sample_driver Measuring [] 1 True (Joining 0))"
  "driver_step sample_outs (sample_driver Measuring [] 1 True (Joining 0)) (sample_driver Returned [5000, 3000] 1 True (Joining 0))"
  "driver_step sample_outs (sample_driver Returned [5000, 3000] 1 True (Joining 0)) (sample_driver Returned [5000, 3000] 1 True (Joining 1))"
  "driver_step sample_outs (sample_driver Returned [5000, 3000] 1 True (Joining 1))
     (sample_driver Returned [5000, 3000] 1 True (Reported (aggregate [[5000, 3000]])))"
  "\<not> driver_step sample_outs (sample_driver Returned [5000, 3000] 1 True (Reported r)) d'"
  by (auto simp: sample_driver_def driver_init_def sample_outs_def driver_step.simps)


text \<open>No client measures before all of them are connected: once one has passed the barrier, none is
  connecting or has given up, and the counter they wait for is the number of clients.\<close>

lemma barrier_holds:
  assumes "driver_steps outs (driver_init (length outs)) d" and "t \<in> set (threads d)" and "t \<in> {Measuring, Returned}"
  shows "set (threads d) \<subseteq> {AtBarrier, Measuring, Returned} \<and> ready_count d = length outs"
proof -
  have inv: "driver_inv outs d" using assms(1) by (rule driver_steps_inv)
  obtain i where "i < length outs" "threads d ! i \<in> {Measuring, Returned}"
    using assms(2,3) inv by (auto simp: driver_inv_def in_set_conv_nth)
  with inv have go: "go d" by (auto simp: driver_inv_def split: if_splits)
  then have past: "past_connect u" if "u \<in> set (threads d)" for u
    using inv that by (auto simp: driver_inv_def in_set_conv_nth)
  moreover have "u \<in> {AtBarrier, Measuring, Returned}" if "past_connect u" for u using that by (cases u) auto
  ultimately have "set (threads d) \<subseteq> {AtBarrier, Measuring, Returned}" by blast
  moreover have "filter past_connect (threads d) = threads d" using past by (auto simp: filter_id_conv)
  ultimately show ?thesis using inv by (simp add: driver_inv_def)
qed

text \<open>C36: A client that fails to connect hangs the benchmark. It returns without counting itself ready, so
  that the main thread waits for the counter for ever, no client ever measures, and nothing is
  reported.\<close>

theorem failed_client_hangs:
  assumes "driver_steps outs (driver_init (length outs)) d" and "out \<in> set outs" and "\<not> fst out"
  shows "phase d = WaitReady \<and> ready_count d < length outs \<and> (\<forall>t \<in> set (threads d). t \<notin> {Measuring, Returned})"
proof -
  have inv: "driver_inv outs d" using assms(1) by (rule driver_steps_inv)
  obtain i where i: "i < length outs" "\<not> fst (outs ! i)" using assms(2,3) by (auto simp: in_set_conv_nth)
  then have np: "\<not> past_connect (threads d ! i)" using inv by (auto simp: driver_inv_def)
  then have "\<not> go d" using inv i(1) by (auto simp: driver_inv_def)
  moreover have "length (filter past_connect (threads d)) < length (threads d)"
    using np i(1) inv by (intro length_filter_less [of "threads d ! i"]) (auto simp: driver_inv_def)
  ultimately show ?thesis using inv
    by (cases "phase d") (auto simp: driver_inv_def in_set_conv_nth)
qed

theorem failed_client_hangs_witness:
  "\<exists>d. driver_steps [(False, []), (True, [7])] (driver_init 2) d \<and> threads d = [GaveUp, AtBarrier] \<and> phase d = WaitReady"
proof -
  let ?outs = "[(False, []), (True, [7])]"
  let ?d = "\<lparr>threads = [GaveUp, AtBarrier], latencies = [[], []], ready_count = 1, go = False, phase = WaitReady\<rparr>"
  let ?d1 = "\<lparr>threads = [GaveUp, Connecting], latencies = [[], []], ready_count = 0, go = False, phase = WaitReady\<rparr>"
  have "driver_step ?outs (driver_init 2) ?d1"
    using driver_step.ds_fail [of 0 "driver_init 2" ?outs] by (simp add: driver_init_def numeral_2_eq_2)
  moreover have "driver_step ?outs ?d1 ?d" using driver_step.ds_ready [of 1 ?d1 ?outs] by simp
  ultimately have run: "driver_steps ?outs (driver_init 2) ?d" by (simp add: converse_rtranclp_into_rtranclp)
  then have "driver_steps ?outs (driver_init (length ?outs)) ?d" by (simp add: numeral_2_eq_2)
  from failed_client_hangs [OF this, of "(False, [])"] have "phase ?d = WaitReady" by simp
  with run show ?thesis by (intro exI [of _ ?d]) simp
qed

text \<open>C29: The aggregation never reads outside the samples and reports what its names say: the number of
  samples, their least and greatest, and values that are a 50th and a 99th percentile of them, in this
  order.\<close>

theorem aggregate_exact:
  assumes "concat all_latencies \<noteq> []"
  shows "\<exists>r. aggregate all_latencies = Some r \<and> res_total_messages r = length (concat all_latencies) \<and>
    res_min r = Min (set (concat all_latencies)) \<and> res_max r = Max (set (concat all_latencies)) \<and>
    is_percentile 50 (concat all_latencies) (res_p50 r) \<and> is_percentile 99 (concat all_latencies) (res_p99 r) \<and>
    res_min r \<le> res_p50 r \<and> res_p50 r \<le> res_p99 r \<and> res_p99 r \<le> res_max r"
proof -
  let ?xs = "concat all_latencies"
  obtain v w where v: "percentile 50 ?xs = Some v" "is_percentile 50 ?xs v"
    and w: "percentile 99 ?xs = Some w" "is_percentile 99 ?xs w"
    using percentile_is [OF assms, of 50] percentile_is [OF assms, of 99] by auto
  have "v \<le> w" using percentile_mono [OF v(1) w(1)] by simp
  moreover have "Min (set ?xs) \<le> v" "w \<le> Max (set ?xs)" using v(2) w(2) by (simp_all add: is_percentile_def)
  moreover have "aggregate all_latencies =
      Some \<lparr>res_total_messages = length ?xs, res_min = Min (set ?xs), res_max = Max (set ?xs), res_p50 = v, res_p99 = w\<rparr>"
    using assms v(1) w(1) sort_ends [OF assms] by (simp add: aggregate_def percentile_def Let_def del: concat_eq_Nil_conv set_concat)
  ultimately show ?thesis using v(2) w(2) by simp
qed

theorem aggregate_exact_witness:
  "\<exists>r. aggregate [[9000, 4000], [], [6000]] = Some r \<and> res_total_messages r = 3 \<and> res_min r = 4000 \<and>
     is_percentile 50 [9000, 4000, 6000] (res_p50 r)"
  using aggregate_exact [of "[[9000, 4000], [], [6000]]"] by auto

end
