(* ===== verification/Server_Run.thy ===== *)
theory Server_Run
  imports Server_Properties
begin

text \<open>
  The reactor over many iterations: when \<^verbatim>\<open>run\<close> returns, and that the identifiers by which
  callbacks know connections stay distinct.
\<close>

section \<open>When the reactor returns\<close>

text \<open>One turn of the loop of \<^verbatim>\<open>run\<close> that does not leave it.\<close>

definition again_step :: "'k Os \<Rightarrow> 'k Callbacks \<Rightarrow> 'k Server \<Rightarrow> 'k Server \<Rightarrow> bool" where
  "again_step os cb s s' \<longleftrightarrow> is_running s \<and> run_iteration os cb s = Some (Inr (Again s'))"

definition loop_ends :: "'k Os \<Rightarrow> 'k Callbacks \<Rightarrow> 'k Server \<Rightarrow> 'k Server \<Rightarrow> bool" where
  "loop_ends os cb s s' \<longleftrightarrow>
     (if is_running s then run_iteration os cb s = Some (Inr (Stop s')) else s' = s)"

lemma run_loop_ends: "loop_ends os cb s s' \<Longrightarrow> run_loop os cb s = Some (Inr s')"
  by (subst run_loop.simps) (auto simp: loop_ends_def split: if_splits)

lemma run_loop_steps:
  "(again_step os cb)\<^sup>*\<^sup>* s s1 \<Longrightarrow> run_loop os cb s1 = Some (Inr s') \<Longrightarrow> run_loop os cb s = Some (Inr s')"
proof (induction rule: converse_rtranclp_induct)
  case (step s s2)
  then show ?case by (subst run_loop.simps) (simp add: again_step_def)
qed simp

lemma run_loop_returned:
  assumes "run_loop os cb s = Some (Inr s')"
  shows "\<exists>s1. (again_step os cb)\<^sup>*\<^sup>* s s1 \<and> loop_ends os cb s1 s'"
proof -
  have "\<forall>s'. r = Inr s' \<longrightarrow> (\<exists>s1. (again_step os cb)\<^sup>*\<^sup>* s s1 \<and> loop_ends os cb s1 s')"
    if "run_loop os cb s = Some r" for r
  proof (rule run_loop.raw_induct [OF _ that], intro allI impI)
    fix loop :: "'a Os \<Rightarrow> 'a Callbacks \<Rightarrow> 'a Server \<Rightarrow> 'a Server outcome" and os cb s r s'
    assume IH: "\<And>os cb s r. loop os cb s = Some r \<Longrightarrow>
        \<forall>s'. r = Inr s' \<longrightarrow> (\<exists>s1. (again_step os cb)\<^sup>*\<^sup>* s s1 \<and> loop_ends os cb s1 s')"
      and run: "(if is_running s then
        (case run_iteration os cb s of None \<Rightarrow> None
         | Some r \<Rightarrow> (case r of Inl f \<Rightarrow> Some (Inl f)
           | Inr it \<Rightarrow> (case it of Stop s' \<Rightarrow> Some (Inr s') | Again s' \<Rightarrow> loop os cb s')))
        else Some (Inr s)) = Some r"
      and r: "r = Inr s'"
    show "\<exists>s1. (again_step os cb)\<^sup>*\<^sup>* s s1 \<and> loop_ends os cb s1 s'"
    proof (cases "\<exists>s2. again_step os cb s s2")
      case True
      then obtain s2 where s2: "again_step os cb s s2" by blast
      then have "loop os cb s2 = Some r" using run by (simp add: again_step_def)
      from IH [OF this] r s2 show ?thesis by (blast intro: converse_rtranclp_into_rtranclp)
    next
      case False
      with run r have "loop_ends os cb s s'"
        by (auto simp: loop_ends_def again_step_def split: if_splits option.splits sum.splits iteration.splits)
      then show ?thesis by blast
    qed
  qed
  with assms show ?thesis by blast
qed

lemma iteration_stop:
  "run_iteration os cb s1 = Some (Inr (Stop s')) \<longleftrightarrow>
     fst (poll_phase os cb s1) < 0 \<and> s' = snd (snd (poll_phase os cb s1))"
  by (auto simp: run_iteration_def Let_def split: prod.splits if_splits option.splits sum.splits)


section \<open>Programs that do not stop the server\<close>

definition same_running :: "'k Server \<Rightarrow> 'k Server \<Rightarrow> bool" where
  "same_running s s' \<longleftrightarrow> is_running s' = is_running s"

lemma env_moves_running:
  "cbs_move same_running (conn_env os cb) \<Longrightarrow> env_moves same_running (conn_env os cb)"
  by (auto simp: env_moves_def reflp_def transp_def same_running_def sys_moves_def conn_env_def
      on_outside_def change_outside_def split: prod.split)

lemma put_back_running: "same_running (snd st) (put_back i st)"
  by (simp add: same_running_def put_back_def)

lemma running_fields [simp]:
  "is_running (count_stat f s) = is_running s" "is_running (change_outside g s) = is_running s"
  by (simp_all add: count_stat_def change_outside_def)

lemma tuning_running [simp]: "is_running (apply_tcp_tuning os fd s) = is_running s"
proof -
  have "is_running (fold (\<lambda>(opt, v). change_outside (os_setsockopt os fd opt v)) opts s) = is_running s" for opts
    by (induction opts arbitrary: s) (simp_all add: split_beta)
  then show ?thesis by (simp add: apply_tcp_tuning_def Let_def)
qed

lemma accept_running: "is_running (handle_accept os cb s) = is_running s"
proof -
  have ctor: "is_running s' = is_running s" if "Connection_ctor (conn_env os cb) sock nid s = (nid', c, s')" for sock nid nid' c s s'
    using that by (auto simp: Connection_ctor_def conn_env_def on_outside_def change_outside_def split: prod.splits)
  show ?thesis
  proof (cases "is_overloaded (max_connections s) (stats s)")
    case True
    let ?s1 = "count_stat (\<lambda>t. t\<lparr>rejected_connections := rejected_connections t + 1\<rparr>) s"
    obtain r s2 where "on_outside (os_accept os (server_sock ?s1)) ?s1 = (r, s2)" by fastforce
    with True on_outside_fields [OF this] show ?thesis by (cases r) (simp_all add: handle_accept_def Let_def)
  next
    case False
    obtain r s1 where acc: "on_outside (os_accept os (server_sock s)) s = (r, s1)" by fastforce
    have s1: "is_running s1 = is_running s" using on_outside_fields [OF acc] by simp
    show ?thesis
    proof (cases r)
      case (AcOk sock)
      let ?s2 = "apply_tcp_tuning os sock (change_outside (os_set_non_blocking os sock) s1)"
      obtain nid c s3 where ct: "Connection_ctor (conn_env os cb) sock (next_conn_id ?s2) ?s2 = (nid, c, s3)"
        by (metis prod_cases3)
      from ctor [OF ct] s1 have "is_running s3 = is_running s" by simp
      with False acc AcOk ct show ?thesis by (simp add: handle_accept_def accept_connection_def Let_def)
    qed (use False acc s1 in \<open>simp add: handle_accept_def accept_connection_def\<close>)
  qed
qed

lemma remove_running:
  assumes "remove_closed_connections os cb s = Some (Inr s')" shows "is_running s' = is_running s"
proof -
  have "is_running (release_connection os cb c s) = is_running s" for c s
    by (auto simp: release_connection_def Connection_dtor_def close_socket_def conn_env_def on_outside_def split: prod.splits)
  then have "is_running (fold (release_connection os cb) cs s) = is_running s" for cs
    by (induction cs arbitrary: s) simp_all
  with assms show ?thesis
    by (auto simp: remove_closed_connections_def Let_def split: option.splits prod.splits if_splits)
qed

lemma again_running:
  assumes "again_step os cb s s'" and cb: "server_callbacks os cb"
    and keep: "cbs_move same_running (conn_env os cb)" and inv: "server_inv s"
  shows "is_running s' \<and> server_inv s'"
proof -
  have run: "run_iteration os cb s = Some (Inr (Again s'))" and on: "is_running s"
    using assms(1) by (simp_all add: again_step_def)
  note mv = env_moves_running [OF keep] and uc = server_callbacksD [OF cb]
  have "is_running s'" using run cb inv
  proof (cases rule: run_iteration_phases)
    case (idle revents s4)
    then show ?thesis using poll_phase_fields(4) [OF idle(1)] on by simp
  next
    case (serve ret revents s4 s5 s6 s7 s8)
    have "is_running s5" using serve(3) poll_phase_fields(4) [OF serve(1)] on by (simp add: accept_running)
    then have "is_running s7"
      using io_loop_moves [OF uc mv put_back_running serve(4)] timeout_loop_moves [OF uc mv put_back_running serve(5)]
      by (simp add: same_running_def)
    then show ?thesis using remove_running [OF serve(6)] serve(7) by simp
  qed simp_all
  with run_iteration_inv [OF run cb inv] show ?thesis by simp
qed

lemma run_until_poll_fails:
  assumes "run os cb s = Some (Inr s')" and cb: "server_callbacks os cb"
    and keep: "cbs_move same_running (conn_env os cb)" and inv: "server_inv s"
  shows "\<exists>s1. server_inv s1 \<and> fst (poll_phase os cb s1) < 0 \<and> s' = snd (snd (poll_phase os cb s1))"
proof -
  obtain s1 where s1: "(again_step os cb)\<^sup>*\<^sup>* (reset_stats (s\<lparr>is_running := True\<rparr>)) s1" "loop_ends os cb s1 s'"
    using run_loop_returned [OF assms(1) [unfolded run_def]] by blast
  have "is_running s1 \<and> server_inv s1" using s1(1)
  proof (induction rule: rtranclp_induct)
    case base
    then show ?case using inv by (simp add: reset_stats_def server_inv_def)
  next
    case (step s2 s3)
    then show ?case using again_running [OF _ cb keep] by blast
  qed
  with s1(2) show ?thesis by (auto simp: loop_ends_def iteration_stop)
qed

section \<open>Identifiers\<close>

lemma api_step_id: "api_step e c c' \<Longrightarrow> conn_id c' = conn_id c"
  by (induction rule: api_step.induct)
     (auto simp: write_frame_def write_close_frame_def Let_def split: option.split prod.split)

lemma conn_step_id: "conn_step e c c' \<Longrightarrow> conn_id c' = conn_id c"
  by (induction rule: conn_step.induct)
     (auto simp: api_step_id write_frame_def Let_def split: option.split prod.split)

lemma steps_id: "api_steps e c c' \<Longrightarrow> conn_id c' = conn_id c" "conn_steps e c c' \<Longrightarrow> conn_id c' = conn_id c"
  by (induction rule: rtranclp_induct; simp add: api_step_id conn_step_id)+

definition conn_ids :: "'k Server \<Rightarrow> u64 list" where
  "conn_ids s = map conn_id (fv_list (connections s))"

text \<open>The counter is above every identifier in use, so that the next one is new.\<close>

definition ids_unique :: "'k Server \<Rightarrow> bool" where
  "ids_unique s \<longleftrightarrow> distinct (conn_ids s) \<and> (\<forall>i \<in> set (conn_ids s). i < next_conn_id s)"

text \<open>Callbacks that construct no connection.\<close>

definition same_counter :: "'k Server \<Rightarrow> 'k Server \<Rightarrow> bool" where
  "same_counter s s' \<longleftrightarrow> next_conn_id s' = next_conn_id s"

lemma env_moves_counter:
  "cbs_move same_counter (conn_env os cb) \<Longrightarrow> env_moves same_counter (conn_env os cb)"
  by (auto simp: env_moves_def reflp_def transp_def same_counter_def sys_moves_def conn_env_def
      on_outside_def change_outside_def split: prod.split)

lemma put_back_counter: "same_counter (snd st) (put_back i st)"
  by (simp add: same_counter_def put_back_def)

lemma peers_ids:
  assumes "peers_evolve e s s'"
  shows "conn_ids s' = conn_ids s"
proof -
  have all: "list_all2 (rel_option (api_steps e)) (fv_storage (connections s)) (fv_storage (connections s'))"
    and size: "fv_size (connections s') = fv_size (connections s)"
    using assms by (simp_all add: peers_evolve_def)
  have "list_all2 (\<lambda>x y. conn_id (the x) = conn_id (the y)) (fv_storage (connections s)) (fv_storage (connections s'))"
    using all by (rule list_all2_mono) (auto simp: option_rel_Some1 elim!: option.rel_cases dest: steps_id(1))
  then have "list_all2 (\<lambda>x y. conn_id (the x) = conn_id (the y)) (take (fv_size (connections s)) (fv_storage (connections s)))
      (take (fv_size (connections s')) (fv_storage (connections s')))"
    by (simp add: size list_all2_takeI)
  then have "conn_ids s = conn_ids s'" by (simp add: conn_ids_def fv_list_def list.rel_eq [symmetric] list.rel_map o_def)
  then show ?thesis by simp
qed

lemma moved_ids:
  assumes "moved e (peers_evolve e) (c, s) st" and "server_inv s" and "fv_at (connections s) i = Some c"
  shows "conn_ids (put_back i st) = conn_ids s"
proof -
  have inv: "server_inv (snd st)" and ids: "conn_ids (snd st) = conn_ids s" and id: "conn_id (fst st) = conn_id c"
    using assms(1,2) peers_inv peers_ids steps_id(2) by (auto simp: moved_def)
  have v: "fv_inv (connections s)" "fv_inv (connections (snd st))" using assms(2) inv by (simp_all add: server_inv_def)
  have i: "i < fv_size (connections s)" "c = fv_list (connections s) ! i"
    using assms(3) fv_at_list [OF v(1)] by (auto split: if_splits)
  have i': "i < fv_size (connections (snd st))"
    using arg_cong [OF ids, of length] i(1) v by (simp add: conn_ids_def)
  then have "conn_ids (put_back i st) = (conn_ids (snd st))[i := conn_id c]"
    by (simp add: conn_ids_def put_back_def fv_set_list v(2) map_update id)
  also have "\<dots> = conn_ids s" unfolding ids using i v(1) by (simp add: conn_ids_def list_update_same_conv)
  finally show ?thesis .
qed

lemma io_loop_ids:
  assumes cb: "server_callbacks os cb" and "server_inv s" and "io_loop (conn_env os cb) revents is s = Some (Inr s')"
  shows "conn_ids s' = conn_ids s"
  using assms(2,3)
proof (induction "is" arbitrary: s)
  case (Cons i "is")
  show ?case
  proof (cases "i < fv_size (connections s)")
    case True
    let ?e = "conn_env os cb"
    have "fv_inv (connections s)" using Cons.prems(1) by (simp add: server_inv_def)
    from fv_at_list [OF this] True obtain c where c: "fv_at (connections s) i = Some c" by auto
    obtain st where io: "handle_connection_io ?e (if i + 1 < length revents then revents ! (i + 1) else 0) (c, s)
        = Some (Inr st)" and rest: "io_loop ?e revents is (put_back i st) = Some (Inr s')"
      using Cons.prems(2) c True by (auto split: option.splits sum.splits)
    note mv = handle_connection_io_moved [OF server_callbacksD [OF cb] env_moves_peers [OF cb] io]
    from moved_put_back(1) [OF mv Cons.prems(1) c] moved_ids [OF mv Cons.prems(1) c] Cons.IH [OF _ rest]
    show ?thesis by simp
  qed (use Cons.prems in simp)
qed simp

lemma timeout_loop_ids:
  assumes cb: "server_callbacks os cb" and "server_inv s" and "timeout_loop (conn_env os cb) is s = Some (Inr s')"
  shows "conn_ids s' = conn_ids s"
  using assms(2,3)
proof (induction "is" arbitrary: s)
  case (Cons i "is")
  show ?case
  proof (cases "i < fv_size (connections s)")
    case True
    let ?e = "conn_env os cb"
    have "fv_inv (connections s)" using Cons.prems(1) by (simp add: server_inv_def)
    from fv_at_list [OF this] True obtain c where c: "fv_at (connections s) i = Some c" by auto
    note mv = enforce_timeout_moved [OF server_callbacksD [OF cb] env_moves_peers [OF cb], of "(c, s)"]
    from moved_put_back(1) [OF mv Cons.prems(1) c] moved_ids [OF mv Cons.prems(1) c] Cons.IH Cons.prems(2) c True
    show ?thesis by simp
  qed (use Cons.prems in simp)
qed simp

lemma counter_fields [simp]:
  "next_conn_id (count_stat f s) = next_conn_id s" "next_conn_id (change_outside g s) = next_conn_id s"
  "next_conn_id (snd (on_outside h s)) = next_conn_id s"
  by (simp_all add: count_stat_def change_outside_def on_outside_def split: prod.split)

lemma tuning_counter [simp]: "next_conn_id (apply_tcp_tuning os fd s) = next_conn_id s"
proof -
  have "next_conn_id (fold (\<lambda>(opt, v). change_outside (os_setsockopt os fd opt v)) opts s) = next_conn_id s" for opts
    by (induction opts arbitrary: s) auto
  then show ?thesis by (simp add: apply_tcp_tuning_def Let_def)
qed

lemma ctor_id:
  "Connection_ctor (conn_env os cb) sock nid s = (nid', c, s') \<Longrightarrow>
     nid' = nid + 1 \<and> conn_id c = nid \<and> connections s' = connections s"
  by (auto simp: Connection_ctor_def conn_env_def on_outside_def change_outside_def split: prod.splits)

lemma accept_ids:
  assumes "server_inv s"
  shows "conn_ids (handle_accept os cb s) = conn_ids s \<and> next_conn_id (handle_accept os cb s) = next_conn_id s \<or>
    conn_ids (handle_accept os cb s) = conn_ids s @ [next_conn_id s] \<and>
    next_conn_id (handle_accept os cb s) = next_conn_id s + 1"
proof (cases "is_overloaded (max_connections s) (stats s)")
  case True
  let ?s1 = "count_stat (\<lambda>t. t\<lparr>rejected_connections := rejected_connections t + 1\<rparr>) s"
  obtain r s2 where acc: "on_outside (os_accept os (server_sock s)) ?s1 = (r, s2)" by fastforce
  have "server_sock (count_stat g s) = server_sock s" for g by (simp add: count_stat_def)
  moreover have "next_conn_id s2 = next_conn_id s" using counter_fields(3) [of "os_accept os (server_sock s)" ?s1] acc by simp
  ultimately show ?thesis using True acc on_outside_fields [OF acc]
    by (cases r) (auto simp: handle_accept_def Let_def conn_ids_def)
next
  case False
  obtain r s1 where acc: "on_outside (os_accept os (server_sock s)) s = (r, s1)" by fastforce
  have s1: "connections s1 = connections s" "next_conn_id s1 = next_conn_id s"
    using on_outside_fields [OF acc] counter_fields(3) [of "os_accept os (server_sock s)" s] acc by simp_all
  show ?thesis
  proof (cases r)
    case (AcErr err)
    with False acc s1 show ?thesis
      by (auto simp: handle_accept_def accept_connection_def conn_ids_def split: if_splits)
  next
    case (AcOk sock)
    let ?s2 = "apply_tcp_tuning os sock (change_outside (os_set_non_blocking os sock) s1)"
    obtain nid c s3 where ct: "Connection_ctor (conn_env os cb) sock (next_conn_id ?s2) ?s2 = (nid, c, s3)"
      by (metis prod_cases3)
    have c: "nid = next_conn_id s + 1" "conn_id c = next_conn_id s" "connections s3 = connections s"
      using ctor_id [OF ct] s1 by auto
    have inv: "fv_inv (connections s)" using assms by (simp add: server_inv_def)
    show ?thesis
    proof (cases "word_of_nat (fv_size (connections s)) \<ge> max_connections s \<or> fv_full (connections s)")
      case True
      with False show ?thesis by (auto simp: handle_accept_def accept_connection_def conn_ids_def)
    next
      case room: False
      then have "fv_list (snd (fv_push_back c (connections s))) = fv_list (connections s) @ [c]"
        using fvv.push_room [OF inv, of c] inv by (auto simp: fv_full_def fv_inv_def)
      then show ?thesis using False room acc AcOk ct c s1
        by (simp add: handle_accept_def accept_connection_def Let_def conn_ids_def)
    qed
  qed
qed

lemma release_counter: "next_conn_id (fold (release_connection os cb) cs s) = next_conn_id s"
proof -
  have "next_conn_id (release_connection os cb c s) = next_conn_id s" for c s
    by (auto simp: release_connection_def Connection_dtor_def close_socket_def conn_env_def on_outside_def split: prod.splits)
  then show ?thesis by (induction cs arbitrary: s) simp_all
qed

lemma remove_ids:
  assumes "server_inv s" and "remove_closed_connections os cb s = Some (Inr s')" and "ids_unique s"
  shows "ids_unique s' \<and> next_conn_id s' = next_conn_id s"
proof -
  have same: "next_conn_id s' = next_conn_id s"
    using assms(2) by (auto simp: remove_closed_connections_def Let_def release_counter split: option.splits prod.splits)
  obtain removed where "mset (fv_list (connections s)) = mset (removed @ fv_list (connections s'))"
    using remove_closed_spec [OF assms(1), of os cb] assms(2) by auto
  then have split: "mset (conn_ids s) = mset (map conn_id removed @ conn_ids s')"
    by (metis conn_ids_def map_append mset_map)
  have "distinct (map conn_id removed @ conn_ids s')" "set (conn_ids s') \<subseteq> set (conn_ids s)"
    using mset_eq_imp_distinct_iff [OF split] mset_eq_setD [OF split] assms(3) by (auto simp: ids_unique_def)
  with assms(3) same show ?thesis by (auto simp: ids_unique_def)
qed

lemma iteration_ids:
  assumes run: "run_iteration os cb s = Some (Inr (Again s'))" and cb: "server_callbacks os cb"
    and keep: "cbs_move same_counter (conn_env os cb)" and inv: "server_inv s" and ids: "ids_unique s"
    and room: "unat (next_conn_id s) + 1 < 2 ^ 64"
  shows "ids_unique s' \<and> unat (next_conn_id s') \<le> unat (next_conn_id s) + 1"
  using run cb inv
proof (cases rule: run_iteration_phases)
  case (idle revents s4)
  have "next_conn_id s4 = next_conn_id s" using idle(1)
    by (auto simp: poll_phase_def conn_env_def on_outside_def Let_def split: prod.splits)
  then show ?thesis using poll_phase_fields(1) [OF idle(1)] ids idle(2) by (simp add: ids_unique_def conn_ids_def)
next
  case (serve ret revents s4 s5 s6 s7 s8)
  note mv = env_moves_counter [OF keep] and uc = server_callbacksD [OF cb]
  have s4: "conn_ids s4 = conn_ids s" "server_inv s4"
    using poll_phase_fields(1) [OF serve(1)] inv server_inv_cong by (auto simp: conn_ids_def)
  have n4: "next_conn_id s4 = next_conn_id s" using serve(1)
    by (auto simp: poll_phase_def conn_env_def on_outside_def Let_def split: prod.splits)
  have step: "next_conn_id s < next_conn_id s + 1" "unat (next_conn_id s + 1) = unat (next_conn_id s) + 1"
    using room by (simp_all add: word_less_nat_alt unat_word_ariths)
  have old: "i < next_conn_id s \<Longrightarrow> i < next_conn_id s + 1" for i using step(1) by (rule less_trans [rotated])
  have s5: "ids_unique s5" "unat (next_conn_id s5) \<le> unat (next_conn_id s) + 1" "server_inv s5"
    using accept_ids [OF s4(2), of os cb] handle_accept_inv [OF s4(2)] serve(3) s4 n4 ids step old
    by (auto simp: ids_unique_def)
  have s6: "conn_ids s6 = conn_ids s5" "next_conn_id s6 = next_conn_id s5" "server_inv s6"
    using io_loop_ids [OF cb s5(3) serve(4)] io_loop_moves [OF uc mv put_back_counter serve(4)]
      io_loop_inv [OF cb refl s5(3) serve(4)] by (auto simp: same_counter_def)
  have s7: "conn_ids s7 = conn_ids s6" "next_conn_id s7 = next_conn_id s6" "server_inv s7"
    using timeout_loop_ids [OF cb s6(3) serve(5)] timeout_loop_moves [OF uc mv put_back_counter serve(5)]
      timeout_loop_inv [OF cb refl s6(3), of "[0..<fv_capacity (connections s6)]"] serve(5) by (auto simp: same_counter_def)
  have "ids_unique s7" using s5(1) s6 s7 by (simp add: ids_unique_def)
  from remove_ids [OF s7(3) serve(6) this] s5(2) s6(2) s7(2) serve(7) show ?thesis by simp
qed simp_all

text \<open>C19: Identifiers are unique: starting with distinct identifiers below the counter, for instance with no
  connection, the connections of the server have distinct identifiers after any number of iterations,
  as long as the counter does not wrap; an iteration takes at most one new identifier.\<close>

theorem ids_stay_unique:
  assumes "(again_step os cb ^^ n) s s'" and "server_callbacks os cb"
    and "cbs_move same_counter (conn_env os cb)" and "server_inv s" and "ids_unique s"
    and "unat (next_conn_id s) + n < 2 ^ 64"
  shows "ids_unique s' \<and> unat (next_conn_id s') \<le> unat (next_conn_id s) + n"
proof -
  have "server_inv s' \<and> ids_unique s' \<and> unat (next_conn_id s') \<le> unat (next_conn_id s) + n"
    using assms(1,6)
  proof (induction n arbitrary: s')
    case 0
    with assms(4,5) show ?case by simp
  next
    case (Suc n)
    then obtain s1 where s1: "(again_step os cb ^^ n) s s1" and step: "again_step os cb s1 s'" by auto
    have run: "run_iteration os cb s1 = Some (Inr (Again s'))" using step by (simp add: again_step_def)
    from Suc.IH [OF s1] Suc.prems(2)
    have IH: "server_inv s1" "ids_unique s1" "unat (next_conn_id s1) \<le> unat (next_conn_id s) + n" by auto
    then have "unat (next_conn_id s1) + 1 < 2 ^ 64" using Suc.prems(2) by linarith
    with iteration_ids [OF run assms(2,3) IH(1,2)] run_iteration_inv [OF run assms(2) IH(1)] IH(3) show ?case by simp
  qed
  then show ?thesis by blast
qed

theorem ids_stay_unique_witness:
  "\<exists>s'. again_step (sample_os 0 []) no_callbacks
     ((sample_busy 0 [] (sample_conn\<lparr>conn_id := 7\<rparr>) [])\<lparr>is_running := True, next_conn_id := 8\<rparr>) s' \<and>
     conn_ids s' = [7] \<and> ids_unique s'"
proof -
  let ?os = "sample_os 0 []" and ?c = "sample_conn\<lparr>conn_id := 7\<rparr>"
  let ?s = "(sample_busy 0 [] ?c [])\<lparr>is_running := True, next_conn_id := 8\<rparr>"
  have "conn_inv ?c" using sample_conn_fields(1) by (simp add: conn_inv_def)
  note inv = sample_busy_inv(1,5) [OF this, of 0 "[]" "[]"]
  have "\<exists>s4. poll_phase ?os no_callbacks ?s = (0, [], s4)"
    by (simp add: poll_phase_def conn_env_def on_outside_def sample_os_def Let_def)
  then obtain s' where poll: "poll_phase ?os no_callbacks ?s = (0, [], s')" by blast
  then have step: "again_step ?os no_callbacks ?s s'" by (simp add: again_step_def run_iteration_def)
  have ids: "conn_ids s' = [7]" "conn_ids ?s = [7]"
    using poll_phase_fields(1) [OF poll] inv(2) by (simp_all add: conn_ids_def)
  have "server_inv ?s" using inv(1) by (simp add: server_inv_def)
  with ids(2) have "ids_unique s'"
    using ids_stay_unique [of 1 ?os no_callbacks ?s s', OF _ no_server_callbacks] step by (simp add: ids_unique_def eq_OO)
  with step ids(1) show ?thesis by blast
qed

end
