(* ===== verification/Example_Servers.thy ===== *)
theory Example_Servers
  imports Server_Run Responder Decimal
begin

text \<open>
  What the example programs under \<^verbatim>\<open>src/examples\<close> share: the port from the command line, the life of
  the server in \<^verbatim>\<open>main\<close>, and callbacks that use only \<^verbatim>\<open>send\<close>; then \<^verbatim>\<open>echo_server.cpp\<close>.
  Console output is left out; a callback that only prints is the identity.
\<close>

section \<open>The main programs\<close>

text \<open>
  The first argument read by \<^verbatim>\<open>std::stoi\<close> and converted to 16 bits. The call is outside the
  \<^verbatim>\<open>try\<close> block: an exception ends the program, here \<^const>\<open>None\<close>.
\<close>

definition port_argument :: "bytes list \<Rightarrow> u16 option" where
  "port_argument args = (case args of [] \<Rightarrow> Some 8080 | a # _ \<Rightarrow> map_option word_of_int (stoi a))"

text \<open>
  The \<^verbatim>\<open>try\<close> block: the exit code, and the world after the destructor. A constructor that throws gives
  exit code 1. \<open>configure\<close> is what the program sets before \<^verbatim>\<open>run\<close>.
\<close>

definition serve_main ::
    "'k Os \<Rightarrow> 'k Callbacks \<Rightarrow> ('k Server \<Rightarrow> 'k Server) \<Rightarrow> u64 \<Rightarrow> u16 \<Rightarrow> 'k \<Rightarrow> (int \<times> 'k) outcome" where
  "serve_main os cb configure nid p k =
     (case Server_ctor os nid p [] k of
        Inl (err, k1) \<Rightarrow> Some (Inr (1, k1))
      | Inr s \<Rightarrow>
          (case run os cb (configure s) of
             None \<Rightarrow> None
           | Some (Inl f) \<Rightarrow> Some (Inl f)
           | Some (Inr s') \<Rightarrow> Some (Inr (0, outside (Server_dtor os cb s')))))"

text \<open>Once the server was constructed, a program that never stops it ends only when \<^verbatim>\<open>poll\<close> fails.\<close>

lemma serve_main_ends:
  assumes "serve_main os cb configure nid p k = Some (Inr (code, k'))" and "server_callbacks os cb"
    and "cbs_move same_running (conn_env os cb)"
    and conf: "\<And>s. server_inv s \<Longrightarrow> server_inv (configure s)"
  shows "code = 1 \<and> (\<exists>err. Server_ctor os nid p [] k = Inl (err, k')) \<or>
    code = 0 \<and> (\<exists>s1. server_inv s1 \<and> fst (poll_phase os cb s1) < 0 \<and>
      k' = outside (Server_dtor os cb (snd (snd (poll_phase os cb s1)))))"
proof (cases "Server_ctor os nid p [] k")
  case (Inl r)
  with assms(1) show ?thesis by (cases r) (simp add: serve_main_def)
next
  case (Inr s)
  then have "server_inv (configure s)" by (simp add: Server_ctor_inv conf)
  moreover obtain s' where "run os cb (configure s) = Some (Inr s')" "code = 0" "k' = outside (Server_dtor os cb s')"
    using assms(1) Inr by (auto simp: serve_main_def split: option.splits sum.splits)
  ultimately show ?thesis using run_until_poll_fails [OF _ assms(2,3)] by blast
qed

lemma port_argument_number:
  "n < 2 ^ 31 \<Longrightarrow> port_argument (to_string n # args) = Some (word_of_nat n)"
  using stoi_to_string [of n "[]"] by (simp add: port_argument_def)

section \<open>Callbacks that only send\<close>

abbreviation quiet_send :: "'k Os \<Rightarrow> bytes \<Rightarrow> 'k Server st \<Rightarrow> 'k Server st" where
  "quiet_send os \<equiv> conn_send (conn_env os no_callbacks)"

lemma conn_env_callbacks [simp]:
  "on_open (conn_env os cb) = srv_on_connect cb" "on_message (conn_env os cb) = srv_on_message cb"
  "on_close (conn_env os cb) = srv_on_close cb" "on_error (conn_env os cb) = srv_on_error cb"
  "on_backpressure (conn_env os cb) = srv_on_backpressure cb" "on_drain (conn_env os cb) = srv_on_drain cb"
  by (simp_all add: conn_env_def)

lemma no_callbacks_fields [simp]:
  "srv_on_connect no_callbacks = None" "srv_on_message no_callbacks = None" "srv_on_close no_callbacks = None"
  "srv_on_error no_callbacks = None" "srv_on_backpressure no_callbacks = None" "srv_on_drain no_callbacks = None"
  by (simp_all add: no_callbacks_def)

lemma quiet_send: "quiet_send os m (c, s) = (after_send m c, s)"
  by (rule conn_send_quiet) simp

section \<open>The echo server\<close>

definition echo_prefix :: bytes where
  "echo_prefix = bytes_of ''Echo: ''"

definition echo_callbacks :: "'k Os \<Rightarrow> 'k Callbacks" where
  "echo_callbacks os = no_callbacks\<lparr>
     srv_on_connect := Some (\<lambda>st. st),
     srv_on_message := Some (\<lambda>msg st. quiet_send os (echo_prefix @ msg) st),
     srv_on_close := Some (\<lambda>clean st. st),
     srv_on_error := Some (\<lambda>st. st)\<rparr>"

definition echo_main :: "'k Os \<Rightarrow> u64 \<Rightarrow> bytes list \<Rightarrow> 'k \<Rightarrow> (int option \<times> 'k) outcome" where
  "echo_main os nid args k =
     (case port_argument args of
        None \<Rightarrow> Some (Inr (None, k))
      | Some p \<Rightarrow> map_option (map_sum id (apfst Some)) (serve_main os (echo_callbacks os) id nid p k))"

lemma echo_callbacks_ok:
  "server_callbacks os (echo_callbacks os)" "reflp R \<Longrightarrow> cbs_move R (conn_env os (echo_callbacks os))"
proof -
  show moves: "cbs_move R (conn_env os (echo_callbacks os))" if "reflp R" for R
    using that by (auto simp: cbs_move_def cb_moves_def echo_callbacks_def quiet_send reflpD)
  have "user_callbacks (conn_env os (echo_callbacks os))"
    using after_send_api by (auto simp: user_callbacks_def uses_api_def echo_callbacks_def quiet_send)
  then show "server_callbacks os (echo_callbacks os)"
    using moves [of "peers_evolve (conn_env os (echo_callbacks os))"] by (simp add: server_callbacks_def reflp_def peers_refl)
qed

interpretation echoing: responder "conn_env os (echo_callbacks os)" "\<lambda>p. echo_prefix @ p" "\<lambda>p s. s"
proof
  show "user_callbacks (conn_env os (echo_callbacks os))" using echo_callbacks_ok(1) by (rule server_callbacksD)
  show "call_opt (map_option (\<lambda>f. f p) (on_message (conn_env os (echo_callbacks os)))) (c, w) =
      (after_send (echo_prefix @ p) c, w)" for p c w
    by (simp add: echo_callbacks_def call_opt_def quiet_send)
qed

text \<open>C16: The echo server answers every message: when text or binary messages, masked or not, reach an
  open connection in one read and the answers fit the send buffer, the server consumes them all and
  queues one unmasked text frame for each, in order, holding the prefix and the message; nothing else
  of the server changes.\<close>

theorem echo_server_answers:
  assumes "messages_ok fs" and "fs \<noteq> []" and "length (message_stream fs) \<le> 4096"
    and "conn_inv c" and "conn_ops c = kOpen" and "rb_contents (rx_buffer c) = []"
    and "length (rb_contents (tx_buffer c)) + length (answers_of (\<lambda>p. bytes_of ''Echo: '' @ p) fs) \<le> 8192"
    and "on_outside (os_readv os (conn_socket c) (map iov_len (rb_fill_iovec_write 2 (rx_buffer c)))) s =
      (RdOk (message_stream fs), s1)"
    and "on_outside (os_now os) s1 = (t, s2)"
  shows "\<exists>c'. handle_read (conn_env os (echo_callbacks os)) (c, s) = Some (Inr (ok, c', s2)) \<and> conn_inv c' \<and>
    conn_ops c' = kOpen \<and> rb_contents (rx_buffer c') = [] \<and>
    rb_contents (tx_buffer c') = rb_contents (tx_buffer c) @
      concat (map (\<lambda>(op, key, p). wire_frame kText None (bytes_of ''Echo: '' @ p)) fs)"
proof -
  let ?e = "conn_env os (echo_callbacks os)"
  have io: "env_readv ?e (conn_socket c) (map iov_len (rb_fill_iovec_write 2 (rx_buffer c))) s = (RdOk (message_stream fs), s1)"
    "env_now ?e s1 = (t, s2)" using assms(8,9) by (simp_all add: conn_env_def)
  have "fold (\<lambda>(op, key, p) s. s) fs s2 = s2" by (induction fs) auto
  then show ?thesis
    using echoing.read_answers [OF assms(1-6) assms(7) [folded echo_prefix_def] io]
    by (simp add: answers_of_def echo_prefix_def) blast
qed

theorem echo_server_answers_witness:
  "\<exists>c' s'. handle_read (conn_env (sample_os 1 []) (echo_callbacks (sample_os 1 [])))
     (sample_open [] [], (sample_server 1 [])\<lparr>outside := wire_frame kText (Some [1, 2, 3, 4]) [104, 105]\<rparr>) = Some (Inr (ok, c', s')) \<and>
     rb_contents (tx_buffer c') = [0x81, 8, 69, 99, 104, 111, 58, 32, 104, 105]"
proof -
  let ?fs = "[(kText, Some [1, 2, 3, 4], [104, 105])] :: (OpCode \<times> bytes option \<times> bytes) list"
  let ?os = "sample_os 1 []" and ?c = "sample_open [] []" and ?s = "(sample_server 1 [])\<lparr>outside := message_stream ?fs\<rparr>"
  have lits: "length (message_stream ?fs) = 8" "length (answers_of (\<lambda>p. bytes_of ''Echo: '' @ p) ?fs) = 10"
    "wire_frame kText None (bytes_of ''Echo: '' @ [104, 105]) = [0x81, 8, 69, 99, 104, 111, 58, 32, 104, 105]" by code_simp+
  have ok: "messages_ok ?fs" by (simp add: messages_ok_def key_ok_def)
  note c = sample_open_inv [of "[]" "[]"]
  have "rb_inv (rx_buffer ?c)" using c(1) by (simp add: conn_inv_def)
  then have "iov_total (rb_fill_iovec_write 2 (rx_buffer ?c)) = 4096"
    using c by (simp add: rb_fill_iovec_write_total rb_available_contents del: length_rb_contents)
  then have "on_outside (os_readv ?os (conn_socket ?c) (map iov_len (rb_fill_iovec_write 2 (rx_buffer ?c)))) ?s =
      (RdOk (message_stream ?fs), ?s\<lparr>outside := []\<rparr>)"
    using lits(1) by (simp add: on_outside_def sample_os_def iov_total_def)
  moreover have "on_outside (os_now ?os) (?s\<lparr>outside := []\<rparr>) = (0, ?s\<lparr>outside := []\<rparr>)"
    by (simp add: on_outside_def sample_os_def)
  moreover note c lits
  ultimately have "\<exists>c'. handle_read (conn_env ?os (echo_callbacks ?os)) (?c, ?s) = Some (Inr (ok, c', ?s\<lparr>outside := []\<rparr>)) \<and>
      rb_contents (tx_buffer c') = [0x81, 8, 69, 99, 104, 111, 58, 32, 104, 105]"
    using echo_server_answers [OF ok, of ?c ?os ?s "?s\<lparr>outside := []\<rparr>" 0 "?s\<lparr>outside := []\<rparr>"]
    by (auto simp del: length_rb_contents)
  then show ?thesis by (auto simp: message_stream_def)
qed

end
