(* ===== verification/Perf_Server.thy ===== *)
theory Perf_Server
  imports Example_Servers Percentile
begin

text \<open>
  \<^verbatim>\<open>src/examples/perf_server.cpp\<close>: a server that counts messages and connections, measures the
  latency of messages that carry the time they were sent at, and echoes them. The global
  \<^verbatim>\<open>g_stats\<close> is part of the world outside the server.
\<close>

section \<open>Statistics\<close>

record PerfStats =
  ps_total_messages :: u64
  ps_total_bytes :: u64
  ps_active_connections :: u64
  ps_start_time :: int
  latencies_us :: "u64 list"

record 'k PerfWorld =
  g_stats :: PerfStats
  machine :: 'k

definition ps_reset :: "int \<Rightarrow> PerfStats \<Rightarrow> PerfStats" where
  "ps_reset now st = st\<lparr>ps_total_messages := 0, ps_total_bytes := 0, ps_active_connections := 0,
     ps_start_time := now, latencies_us := []\<rparr>"

text \<open>\<^verbatim>\<open>duration_cast\<close> from nanoseconds, rounding to zero.\<close>

definition duration_cast :: "int \<Rightarrow> int \<Rightarrow> int" where
  "duration_cast unit d = (if d < 0 then - (- d div unit) else d div unit)"

text \<open>
  The numbers \<^verbatim>\<open>print_report\<close> prints; the latency lines are there only when there are samples. It
  leaves the samples sorted. \<^const>\<open>None\<close> is an access outside the vector.
\<close>

record LatencyReport =
  lat_min :: u64
  lat_p50 :: u64
  lat_p95 :: u64
  lat_p99 :: u64
  lat_max :: u64

record PerfReport =
  messages_per_sec :: u64
  bytes_per_sec :: u64
  avg_msg_size :: u64
  current_connections :: u64
  duration_sec :: u64
  latency :: "LatencyReport option"

definition latency_report :: "u64 list \<Rightarrow> LatencyReport option" where
  "latency_report v =
     (case (nth_checked v (length v div 2), nth_checked v (length v * 95 div 100), nth_checked v (length v * 99 div 100)) of
        (Some p50, Some p95, Some p99) \<Rightarrow>
          Some \<lparr>lat_min = hd v, lat_p50 = p50, lat_p95 = p95, lat_p99 = p99, lat_max = last v\<rparr>
      | _ \<Rightarrow> None)"

definition print_report :: "int \<Rightarrow> PerfStats \<Rightarrow> (PerfReport \<times> PerfStats) option" where
  "print_report now st =
     (let elapsed = duration_cast 1000000000 (now - ps_start_time st);
          elapsed_s = word_of_int (if elapsed = 0 then 1 else elapsed) :: u64;
          msgs = ps_total_messages st;
          bytes = ps_total_bytes st;
          r = \<lparr>messages_per_sec = msgs div elapsed_s, bytes_per_sec = bytes div elapsed_s,
               avg_msg_size = (if msgs > 0 then bytes div msgs else 0),
               current_connections = ps_active_connections st, duration_sec = elapsed_s, latency = None\<rparr>
      in if latencies_us st \<noteq> []
         then (let v = sort (latencies_us st)
               in map_option (\<lambda>l. (r\<lparr>latency := Some l\<rparr>, st\<lparr>latencies_us := v\<rparr>)) (latency_report v))
         else Some (r, st))"

section \<open>Timestamps\<close>

definition bench_prefix :: bytes where
  "bench_prefix = bytes_of ''bench_''"

definition extract_timestamp_us :: "bytes \<Rightarrow> u64" where
  "extract_timestamp_us msg =
     (case sv_find bench_prefix msg 0 of
        None \<Rightarrow> 0
      | Some pos \<Rightarrow> (case stoull (sv_substr (pos + 6) (length msg) msg) of None \<Rightarrow> 0 | Some ns \<Rightarrow> ns div 1000))"

section \<open>Callbacks\<close>

definition on_stats :: "(PerfStats \<Rightarrow> PerfStats) \<Rightarrow> 'k PerfWorld Server \<Rightarrow> 'k PerfWorld Server" where
  "on_stats f s = s\<lparr>outside := (outside s)\<lparr>g_stats := f (g_stats (outside s))\<rparr>\<rparr>"

text \<open>The subtraction is unsigned: a time of sending in the future gives a large latency, which is dropped.\<close>

definition ps_record :: "int \<Rightarrow> bytes \<Rightarrow> PerfStats \<Rightarrow> PerfStats" where
  "ps_record now msg st =
     (let now_us = duration_cast 1000 now;
          st1 = st\<lparr>ps_total_messages := ps_total_messages st + 1,
                   ps_total_bytes := ps_total_bytes st + word_of_nat (length msg)\<rparr>;
          send_time_us = extract_timestamp_us msg
      in if send_time_us > 0
         then (let latency_us = word_of_int now_us - send_time_us
               in if latency_us < 1000000 then st1\<lparr>latencies_us := latencies_us st1 @ [latency_us]\<rparr> else st1)
         else st1)"

definition perf_count :: "'k PerfWorld Os \<Rightarrow> bytes \<Rightarrow> 'k PerfWorld Server \<Rightarrow> 'k PerfWorld Server" where
  "perf_count os msg s = (case on_outside (os_now os) s of (now, s1) \<Rightarrow> on_stats (ps_record now msg) s1)"

definition perf_answer :: "bytes \<Rightarrow> bytes" where
  "perf_answer msg = bytes_of ''echo: '' @ msg"

definition perf_callbacks :: "'k PerfWorld Os \<Rightarrow> 'k PerfWorld Callbacks" where
  "perf_callbacks os = no_callbacks\<lparr>
     srv_on_connect := Some (\<lambda>(c, s). (c, on_stats (\<lambda>st. st\<lparr>ps_active_connections := ps_active_connections st + 1\<rparr>) s)),
     srv_on_message := Some (\<lambda>msg (c, s). quiet_send os (perf_answer msg) (c, perf_count os msg s)),
     srv_on_close := Some (\<lambda>clean (c, s). (c, on_stats (\<lambda>st. st\<lparr>ps_active_connections := ps_active_connections st - 1\<rparr>) s)),
     srv_on_error := Some (\<lambda>st. st)\<rparr>"

definition perf_tuning :: TcpTuning where
  "perf_tuning = tuning_default\<lparr>tcp_nodelay := True, tcp_quickack := True, so_keepalive := True,
     keepalive_idle_s := 30, keepalive_interval_s := 5, keepalive_count := 3\<rparr>"

text \<open>
  \<^verbatim>\<open>main\<close>: an argument is read with \<^verbatim>\<open>atoi\<close>, whose undefined behaviour is a fault here. The statistics
  are reset before \<^verbatim>\<open>run\<close>, and the report is made when the server is gone, unless it could not be
  constructed.
\<close>

definition perf_port :: "bytes list \<Rightarrow> u16 option" where
  "perf_port args = (case args of [] \<Rightarrow> Some 8080 | a # _ \<Rightarrow> map_option word_of_int (atoi a))"

definition perf_configure :: "'k PerfWorld Os \<Rightarrow> 'k PerfWorld Server \<Rightarrow> 'k PerfWorld Server" where
  "perf_configure os s =
     (case on_outside (os_now os) (set_tcp_tuning perf_tuning s) of (now, s1) \<Rightarrow> on_stats (ps_reset now) s1)"

definition perf_main ::
    "'k PerfWorld Os \<Rightarrow> u64 \<Rightarrow> bytes list \<Rightarrow> 'k PerfWorld \<Rightarrow> (int \<times> PerfReport option \<times> 'k PerfWorld) outcome" where
  "perf_main os nid args k =
     (case perf_port args of
        None \<Rightarrow> Some (Inl OutOfBounds)
      | Some p \<Rightarrow>
          (case serve_main os (perf_callbacks os) (perf_configure os) nid p k of
             None \<Rightarrow> None
           | Some (Inl f) \<Rightarrow> Some (Inl f)
           | Some (Inr (code, k1)) \<Rightarrow>
               if code = 1 then Some (Inr (1, None, k1))
               else (case os_now os k1 of (now, k2) \<Rightarrow>
                 (case print_report now (g_stats k2) of
                    None \<Rightarrow> Some (Inl OutOfBounds)
                  | Some (r, st) \<Rightarrow> Some (Inr (0, Some r, k2\<lparr>g_stats := st\<rparr>))))))"

section \<open>The callbacks keep to the interface\<close>

lemma on_stats_outside: "\<exists>k. on_stats f s = s\<lparr>outside := k\<rparr>"
  by (auto simp: on_stats_def)

lemma perf_count_outside: "\<exists>k. perf_count os msg s = s\<lparr>outside := k\<rparr>"
  by (auto simp: perf_count_def on_outside_def on_stats_def split: prod.split)

lemma perf_callbacks_ok:
  "server_callbacks os (perf_callbacks os)"
  "(\<And>s k. R s (s\<lparr>outside := k\<rparr>)) \<Longrightarrow> cbs_move R (conn_env os (perf_callbacks os))"
proof -
  show moves: "cbs_move R (conn_env os (perf_callbacks os))" if "\<And>s k. R s (s\<lparr>outside := k\<rparr>)" for R
  proof -
    have "R s (on_stats f s)" "R s (perf_count os msg s)" for f msg s
      using that on_stats_outside [of f s] perf_count_outside [of os msg s] by auto
    then show ?thesis by (auto simp: cbs_move_def cb_moves_def perf_callbacks_def quiet_send)
  qed
  have "user_callbacks (conn_env os (perf_callbacks os))"
    using after_send_api by (auto simp: user_callbacks_def uses_api_def perf_callbacks_def quiet_send)
  then show "server_callbacks os (perf_callbacks os)"
    using moves [of "peers_evolve (conn_env os (perf_callbacks os))"] by (simp add: server_callbacks_def peers_outside)
qed

interpretation perf: responder "conn_env os (perf_callbacks os)" perf_answer "perf_count os"
proof
  show "user_callbacks (conn_env os (perf_callbacks os))" using perf_callbacks_ok(1) by (rule server_callbacksD)
  show "call_opt (map_option (\<lambda>f. f p) (on_message (conn_env os (perf_callbacks os)))) (c, w) =
      (after_send (perf_answer p) c, perf_count os p w)" for p c w
    by (simp add: perf_callbacks_def call_opt_def quiet_send)
qed

section \<open>Timestamps\<close>

lemma find_at_prefix: "find_at pat (pat @ r) = Some 0"
  by (cases pat; cases r) simp_all

text \<open>C18: The server reads the timestamps clients write: for every time in nanoseconds that fits 64 bits,
  written in decimal after the first \<open>bench_\<close> of a message and followed by anything but a digit, the
  extracted time is that time in microseconds.\<close>

theorem timestamp_round_trip:
  assumes "ns < 2 ^ 64" and "rest = [] \<or> \<not> is_digit (hd rest)"
  shows "extract_timestamp_us (bytes_of ''bench_'' @ to_string ns @ rest) = word_of_nat (ns div 1000)"
proof -
  let ?m = "bench_prefix @ to_string ns @ rest"
  have len: "length bench_prefix = 6" by (simp add: bench_prefix_def)
  have find: "sv_find bench_prefix ?m 0 = Some 0" by (simp add: sv_find_def find_at_prefix)
  have "sv_substr (0 + 6) (length ?m) ?m = to_string ns @ rest" using len by (simp add: sv_substr_def)
  with find stoull_to_string [OF assms] have "extract_timestamp_us ?m = (word_of_nat ns :: u64) div 1000"
    by (simp add: extract_timestamp_us_def)
  also have "(word_of_nat ns :: u64) div 1000 = word_of_nat (ns div 1000)"
    using assms(1) div_le_dividend [of ns 1000]
    by (simp add: word_eq_iff_unsigned [where 'a = nat] unat_div unat_of_nat del: div_le_dividend)
  finally show ?thesis by (simp add: bench_prefix_def)
qed

theorem timestamp_round_trip_witness:
  "extract_timestamp_us (bytes_of ''bench_'' @ to_string 123456789 @ [32]) = 123456"
proof -
  have "\<not> is_digit 32" by code_simp
  with timestamp_round_trip [of 123456789 "[32]"] show ?thesis by simp
qed

section \<open>Counting\<close>

text \<open>What recording messages of the given lengths may do to the statistics.\<close>

definition recorded :: "nat list \<Rightarrow> PerfStats \<Rightarrow> PerfStats \<Rightarrow> bool" where
  "recorded ls st st' \<longleftrightarrow>
     ps_total_messages st' = ps_total_messages st + word_of_nat (length ls) \<and>
     ps_total_bytes st' = ps_total_bytes st + word_of_nat (sum_list ls) \<and>
     ps_active_connections st' = ps_active_connections st \<and> ps_start_time st' = ps_start_time st \<and>
     (\<exists>new. latencies_us st' = latencies_us st @ new \<and> length new \<le> length ls \<and> (\<forall>l \<in> set new. l < 1000000))"

lemma recorded_one: "recorded [length msg] st (ps_record now msg st)"
  by (auto simp: recorded_def ps_record_def Let_def)

lemma recorded_trans: "recorded ls st st1 \<Longrightarrow> recorded ls' st1 st2 \<Longrightarrow> recorded (ls @ ls') st st2"
  by (auto simp: recorded_def)

lemma fold_recorded:
  assumes "\<And>k. g_stats (snd (os_now os k)) = g_stats k"
  shows "recorded (map (\<lambda>(op, key, p). length p) fs) (g_stats (outside s))
    (g_stats (outside (fold (\<lambda>(op, key, p). perf_count os p) fs s)))"
proof (induction fs arbitrary: s)
  case Nil
  show ?case by (simp add: recorded_def)
next
  case (Cons f fs)
  obtain op key p where f: "f = (op, key, p)" by (cases f)
  obtain now k where now: "os_now os (outside s) = (now, k)" by fastforce
  then have "g_stats k = g_stats (outside s)" using assms [of "outside s"] by simp
  then have "recorded [length p] (g_stats (outside s)) (g_stats (outside (perf_count os p s)))"
    using now recorded_one [of p "g_stats k" now] by (simp add: perf_count_def on_outside_def on_stats_def)
  from recorded_trans [OF this Cons.IH] f show ?case by simp
qed

lemma fold_perf_connections: "connections (fold (\<lambda>(op, key, p). perf_count os p) fs s) = connections s"
proof (induction fs arbitrary: s)
  case (Cons f fs)
  obtain op key p where f: "f = (op, key, p)" by (cases f)
  obtain k where "perf_count os p s = s\<lparr>outside := k\<rparr>" using perf_count_outside by blast
  with Cons f show ?case by simp
qed simp

text \<open>C15: The performance server counts what it serves: messages that reach an open connection in one read
  are all answered with their echo, the counters of messages and bytes grow by exactly their number
  and their total length, the connection count is untouched, and at most one latency per message is
  recorded, each below a second.\<close>

theorem perf_server_counts:
  assumes "messages_ok fs" and "fs \<noteq> []" and "length (message_stream fs) \<le> 4096"
    and "conn_inv c" and "conn_ops c = kOpen" and "rb_contents (rx_buffer c) = []"
    and "length (rb_contents (tx_buffer c)) + length (answers_of perf_answer fs) \<le> 8192"
    and "on_outside (os_readv os (conn_socket c) (map iov_len (rb_fill_iovec_write 2 (rx_buffer c)))) s =
      (RdOk (message_stream fs), s1)"
    and "on_outside (os_now os) s1 = (t, s2)" and "\<And>k. g_stats (snd (os_now os k)) = g_stats k"
  shows "\<exists>c' s'. handle_read (conn_env os (perf_callbacks os)) (c, s) = Some (Inr (ok, c', s')) \<and>
    conn_ops c' = kOpen \<and> rb_contents (rx_buffer c') = [] \<and>
    rb_contents (tx_buffer c') = rb_contents (tx_buffer c) @
      concat (map (\<lambda>(op, key, p). wire_frame kText None (perf_answer p)) fs) \<and>
    connections s' = connections s2 \<and>
    recorded (map (\<lambda>(op, key, p). length p) fs) (g_stats (outside s2)) (g_stats (outside s'))"
proof -
  let ?e = "conn_env os (perf_callbacks os)"
  have io: "env_readv ?e (conn_socket c) (map iov_len (rb_fill_iovec_write 2 (rx_buffer c))) s = (RdOk (message_stream fs), s1)"
    "env_now ?e s1 = (t, s2)" using assms(8,9) by (simp_all add: conn_env_def)
  obtain c' where "handle_read ?e (c, s) = Some (Inr (ok, c', fold (\<lambda>(op, key, p). perf_count os p) fs s2))"
    "conn_ops c' = kOpen" "rb_contents (rx_buffer c') = []"
    "rb_contents (tx_buffer c') = rb_contents (tx_buffer c) @ answers_of perf_answer fs"
    using perf.read_answers [OF assms(1-7) io] by blast
  with fold_recorded [OF assms(10), of fs s2] fold_perf_connections [of os fs s2] show ?thesis
    by (auto simp: answers_of_def)
qed

text \<open>A machine for concrete runs: the bytes every connection reads; the clock stands at 5 ms.\<close>

definition perf_os :: "bytes PerfWorld Os" where
  "perf_os = \<lparr>
     os_now = (\<lambda>k. (5000000, k)),
     os_readv = (\<lambda>fd lens k. (RdOk (take (sum_list lens) (machine k)), k\<lparr>machine := drop (sum_list lens) (machine k)\<rparr>)),
     os_writev = (\<lambda>fd bs k. (WrOk (length bs), k)), os_write = (\<lambda>fd bs k. (WrOk (length bs), k)),
     os_set_non_blocking = (\<lambda>fd k. k), os_close = (\<lambda>fd k. (-1, k)), os_is_open = (\<lambda>fd. 0 \<le> fd),
     os_poll = (\<lambda>fds t k. ((0, []), k)), os_accept = (\<lambda>fd k. (AcErr 11, k)), os_close_fd = (\<lambda>fd k. k),
     os_setsockopt = (\<lambda>fd opt v k. k), os_last_owner = (\<lambda>c k. True), os_socket = (\<lambda>k. (3, k)),
     os_reuse_addr = (\<lambda>fd k. k), os_bind = (\<lambda>fd p addr k. (0, k)), os_listen = (\<lambda>fd n k. (0, k))\<rparr>"

definition perf_sample :: "bytes \<Rightarrow> bytes PerfWorld Server" where
  "perf_sample bs = projr (Server_ctor perf_os 1 8080 []
     \<lparr>g_stats = \<lparr>ps_total_messages = 0, ps_total_bytes = 0, ps_active_connections = 1, ps_start_time = 0, latencies_us = []\<rparr>,
      machine = bs\<rparr>)"

lemma perf_sample_outside:
  "outside (perf_sample bs) = \<lparr>g_stats = \<lparr>ps_total_messages = 0, ps_total_bytes = 0, ps_active_connections = 1,
     ps_start_time = 0, latencies_us = []\<rparr>, machine = bs\<rparr>"
  by (simp add: perf_sample_def Server_ctor_def perf_os_def)

theorem perf_server_counts_witness:
  "\<exists>c' s'. handle_read (conn_env perf_os (perf_callbacks perf_os))
     (sample_open [] [], perf_sample (wire_frame kBinary None [104, 105])) = Some (Inr (ok, c', s')) \<and>
     rb_contents (tx_buffer c') = wire_frame kText None (bytes_of ''echo: '' @ [104, 105]) \<and>
     ps_total_messages (g_stats (outside s')) = 1 \<and> ps_total_bytes (g_stats (outside s')) = 2"
proof -
  let ?fs = "[(kBinary, None, [104, 105])] :: (OpCode \<times> bytes option \<times> bytes) list"
  let ?c = "sample_open [] []" and ?s = "perf_sample (message_stream ?fs)"
  let ?s1 = "?s\<lparr>outside := (outside ?s)\<lparr>machine := []\<rparr>\<rparr>"
  have lits: "length (message_stream ?fs) = 4" "length (answers_of perf_answer ?fs) = 10" by code_simp+
  have ok: "messages_ok ?fs" by (simp add: messages_ok_def key_ok_def)
  note c = sample_open_inv [of "[]" "[]"]
  have "rb_inv (rx_buffer ?c)" using c(1) by (simp add: conn_inv_def)
  then have "iov_total (rb_fill_iovec_write 2 (rx_buffer ?c)) = 4096"
    using c by (simp add: rb_fill_iovec_write_total rb_available_contents del: length_rb_contents)
  then have rd: "on_outside (os_readv perf_os (conn_socket ?c) (map iov_len (rb_fill_iovec_write 2 (rx_buffer ?c)))) ?s =
      (RdOk (message_stream ?fs), ?s1)"
    using lits(1) by (simp add: on_outside_def perf_os_def iov_total_def perf_sample_outside)
  have now: "on_outside (os_now perf_os) ?s1 = (5000000, ?s1)" "g_stats (snd (os_now perf_os k)) = g_stats k" for k
    by (simp_all add: on_outside_def perf_os_def)
  show ?thesis
    using perf_server_counts [OF ok _ _ _ _ _ _ rd now] c lits
    by (auto simp: recorded_def perf_sample_outside message_stream_def perf_answer_def simp del: length_rb_contents)
qed

section \<open>Connections\<close>

text \<open>C37: The count of connections goes wrong when a peer closes: its close frame takes two from the count
  to which its connection added one, so that the count wraps below zero when that was the only
  connection.\<close>

theorem perf_count_underflows:
  assumes "conn_inv c" and "frame_at (rb_contents (rx_buffer c)) = Some (kClose, p, n)"
    and "\<And>fd k. g_stats (snd (os_close os fd k)) = g_stats k"
    and "ps_active_connections (g_stats (outside s)) = 1"
  shows "\<exists>c' s'. parse_frames (conn_env os (perf_callbacks os)) (c, s) = Some (Inr (c', s')) \<and> conn_ops c' = kClosed \<and>
    unat (ps_active_connections (g_stats (outside s'))) = 2 ^ 64 - 1"
proof -
  let ?dec = "on_stats (\<lambda>st. st\<lparr>ps_active_connections := ps_active_connections st - 1\<rparr>) :: 'a PerfWorld Server \<Rightarrow> _"
  let ?f = "\<lambda>(clean :: bool) (c, s). (c, ?dec s)"
  have "on_close (conn_env os (perf_callbacks os)) = Some ?f" by (simp add: perf_callbacks_def)
  from peer_close_notifies_twice [OF assms(1,2) this, of s c "?dec s"]
  have "parse_frames (conn_env os (perf_callbacks os)) (c, s) =
      Some (Inr (close_socket (conn_env os (perf_callbacks os)) (c\<lparr>conn_ops := kClosed\<rparr>, ?dec (?dec s))))" by simp
  moreover obtain sock s' where close: "on_outside (os_close os (conn_socket c)) (?dec (?dec s)) = (sock, s')" by fastforce
  then have "g_stats (outside s') = g_stats (outside (?dec (?dec s)))"
    using assms(3) [of "conn_socket c" "outside (?dec (?dec s))"] by (auto simp: on_outside_def split: prod.splits)
  then have "ps_active_connections (g_stats (outside s')) = - 1" using assms(4) by (simp add: on_stats_def)
  moreover have "close_socket (conn_env os (perf_callbacks os)) (c\<lparr>conn_ops := kClosed\<rparr>, ?dec (?dec s)) =
      (c\<lparr>conn_ops := kClosed, conn_socket := sock\<rparr>, s')"
    using close by (simp add: close_socket_def conn_env_def)
  moreover have "unat (- 1 :: u64) = 2 ^ 64 - 1" using unat_neg [of 1] by simp
  ultimately show ?thesis by simp
qed

theorem perf_count_underflows_witness:
  "\<exists>c' s'. parse_frames (conn_env perf_os (perf_callbacks perf_os)) (sample_open [0x88, 0] [], perf_sample []) = Some (Inr (c', s')) \<and>
     unat (ps_active_connections (g_stats (outside s'))) = 18446744073709551615"
proof -
  have "frame_at [0x88, 0] = Some (kClose, [], 2)" by code_simp
  then have "frame_at (rb_contents (rx_buffer (sample_open [0x88, 0] []))) = Some (kClose, [], 2)"
    using sample_open_inv(2) [of "[0x88, 0]" "[]"] by simp
  moreover have "conn_inv (sample_open [0x88, 0] [])" using sample_open_inv(1) [of "[0x88, 0]" "[]"] by simp
  moreover have "g_stats (snd (os_close perf_os fd k)) = g_stats k" for fd k by (simp add: perf_os_def)
  ultimately show ?thesis
    using perf_count_underflows [of "sample_open [0x88, 0] []" "[]" 2 perf_os "perf_sample []"]
    by (auto simp: perf_sample_outside)
qed

section \<open>The report\<close>

text \<open>The report never reads outside the samples and states true order statistics: with samples, the
  least and the greatest, and a 50th, 95th and 99th percentile in increasing order; the samples are
  kept, sorted. Without samples there are no latency lines.\<close>

lemma perf_report_exact:
  "\<exists>r st'. print_report now st = Some (r, st') \<and> mset (latencies_us st') = mset (latencies_us st) \<and>
     current_connections r = ps_active_connections st \<and>
     (if latencies_us st = [] then latency r = None
      else \<exists>l. latency r = Some l \<and> lat_min l = Min (set (latencies_us st)) \<and> lat_max l = Max (set (latencies_us st)) \<and>
        is_percentile 50 (latencies_us st) (lat_p50 l) \<and> is_percentile 95 (latencies_us st) (lat_p95 l) \<and>
        is_percentile 99 (latencies_us st) (lat_p99 l) \<and> lat_p50 l \<le> lat_p95 l \<and> lat_p95 l \<le> lat_p99 l)"
proof (cases "latencies_us st = []")
  case True
  then show ?thesis by (simp add: print_report_def Let_def)
next
  case False
  let ?xs = "latencies_us st"
  obtain a b c where a: "percentile 50 ?xs = Some a" "is_percentile 50 ?xs a"
    and b: "percentile 95 ?xs = Some b" "is_percentile 95 ?xs b" and c: "percentile 99 ?xs = Some c" "is_percentile 99 ?xs c"
    using percentile_is [OF False, of 50] percentile_is [OF False, of 95] percentile_is [OF False, of 99] by auto
  have "a \<le> b" "b \<le> c" using percentile_mono [OF a(1) b(1)] percentile_mono [OF b(1) c(1)] by simp_all
  moreover have "latency_report (sort ?xs) =
      Some \<lparr>lat_min = Min (set ?xs), lat_p50 = a, lat_p95 = b, lat_p99 = c, lat_max = Max (set ?xs)\<rparr>"
    using a(1) b(1) c(1) sort_ends [OF False] by (simp add: latency_report_def percentile_def)
  ultimately show ?thesis using False a(2) b(2) c(2) by (simp add: print_report_def Let_def)
qed

end
