(* ===== verification/Broadcast.thy ===== *)
theory Broadcast
  imports Example_Servers
begin

text \<open>
  \<^verbatim>\<open>src/examples/broadcast_server.cpp\<close>: every message goes to all clients in a list of weak pointers
  that the callbacks for opening and closing maintain. A weak pointer is the identifier of its
  connection, which the server keeps unique; it can be locked as long as the server holds the
  connection. No callback runs inside another, so that the mutex is always free when it is locked.
\<close>

section \<open>The callbacks\<close>

record 'k BroadcastWorld =
  broadcast_list :: "u64 list"
  bc_machine :: 'k

text \<open>\<^verbatim>\<open>weak_ptr::lock\<close> on a connection other than the one the callback got: its slot in the server.\<close>

definition lock_slot :: "u64 \<Rightarrow> 'k Server \<Rightarrow> nat option" where
  "lock_slot i s =
     find (\<lambda>k. map_option conn_id (fv_at (connections s) k) = Some i) [0..<fv_size (connections s)]"

definition set_list :: "(u64 list \<Rightarrow> u64 list) \<Rightarrow> 'k BroadcastWorld Server \<Rightarrow> 'k BroadcastWorld Server" where
  "set_list f s = s\<lparr>outside := (outside s)\<lparr>broadcast_list := f (broadcast_list (outside s))\<rparr>\<rparr>"

definition broadcast_on_connect :: "'k BroadcastWorld Server st \<Rightarrow> 'k BroadcastWorld Server st" where
  "broadcast_on_connect st = (case st of (c, s) \<Rightarrow> (c, set_list (\<lambda>l. l @ [conn_id c]) s))"

definition broadcast_text :: "u64 \<Rightarrow> bytes \<Rightarrow> bytes" where
  "broadcast_text i msg = bytes_of ''Client #'' @ to_string (unat i) @ bytes_of '': '' @ msg"

definition send_to :: "'k Os \<Rightarrow> bytes \<Rightarrow> u64 \<Rightarrow> 'k Server st \<Rightarrow> 'k Server st" where
  "send_to os text target st =
     (case st of (c, s) \<Rightarrow>
        if target = conn_id c then quiet_send os text (c, s)
        else (case lock_slot target s of
                None \<Rightarrow> (c, s)
              | Some k \<Rightarrow>
                  (case fv_at (connections s) k of
                     None \<Rightarrow> (c, s)
                   | Some t \<Rightarrow> (c, put_back k (quiet_send os text (t, s))))))"

definition broadcast_on_message ::
    "'k BroadcastWorld Os \<Rightarrow> bytes \<Rightarrow> 'k BroadcastWorld Server st \<Rightarrow> 'k BroadcastWorld Server st" where
  "broadcast_on_message os msg st =
     fold (send_to os (broadcast_text (conn_id (fst st)) msg)) (broadcast_list (outside (snd st))) st"

definition broadcast_on_close :: "bool \<Rightarrow> 'k BroadcastWorld Server st \<Rightarrow> 'k BroadcastWorld Server st" where
  "broadcast_on_close clean st =
     (case st of (c, s) \<Rightarrow> (c, set_list (filter (\<lambda>i. \<not> (i \<noteq> conn_id c \<and> lock_slot i s = None \<or> i = conn_id c))) s))"

definition broadcast_callbacks :: "'k BroadcastWorld Os \<Rightarrow> 'k BroadcastWorld Callbacks" where
  "broadcast_callbacks os = no_callbacks\<lparr>
     srv_on_connect := Some broadcast_on_connect,
     srv_on_message := Some (broadcast_on_message os),
     srv_on_close := Some broadcast_on_close,
     srv_on_error := Some (\<lambda>st. st)\<rparr>"

definition broadcast_main ::
    "'k BroadcastWorld Os \<Rightarrow> u64 \<Rightarrow> bytes list \<Rightarrow> 'k BroadcastWorld \<Rightarrow> (int option \<times> 'k BroadcastWorld) outcome" where
  "broadcast_main os nid args k =
     (case port_argument args of
        None \<Rightarrow> Some (Inr (None, k))
      | Some p \<Rightarrow> map_option (map_sum id (apfst Some))
          (serve_main os (broadcast_callbacks os) (set_list (\<lambda>l. [])) nid p k))"

section \<open>Sending to one client\<close>

lemma lock_slot_Some:
  assumes "fv_inv (connections s)" and "lock_slot i s = Some k"
  shows "k < fv_size (connections s)" "fv_at (connections s) k = Some (fv_list (connections s) ! k)"
    "conn_id (fv_list (connections s) ! k) = i"
  using assms fv_at_list [OF assms(1), of k] by (auto simp: lock_slot_def find_Some_iff)

lemma lock_slot_None:
  assumes "fv_inv (connections s)"
  shows "lock_slot i s = None \<longleftrightarrow> i \<notin> conn_id ` set (fv_list (connections s))"
proof -
  have len: "length (fv_list (connections s)) = fv_size (connections s)" using assms by simp
  have "set (fv_list (connections s)) = (\<lambda>k. fv_list (connections s) ! k) ` {0..<fv_size (connections s)}"
    by (auto simp: set_conv_nth len)
  then show ?thesis using fv_at_list [OF assms] by (auto simp: lock_slot_def find_None_iff)
qed

text \<open>What one step of the loop does: at most the client with that identifier gets the text.\<close>

definition send_in_list :: "bytes \<Rightarrow> u64 \<Rightarrow> Connection list \<Rightarrow> Connection list" where
  "send_in_list text target cs = map (\<lambda>t. if conn_id t = target then after_send text t else t) cs"

lemma update_unique:
  assumes "distinct (map f xs)" and "k < length xs"
  shows "xs[k := g (xs ! k)] = map (\<lambda>x. if f x = f (xs ! k) then g x else x) xs"
proof (rule nth_equalityI)
  fix j assume "j < length (xs[k := g (xs ! k)])"
  then have j: "j < length xs" by simp
  with assms have "f (xs ! j) = f (xs ! k) \<longleftrightarrow> j = k" by (metis length_map nth_eq_iff_index_eq nth_map)
  with j assms(2) show "xs[k := g (xs ! k)] ! j = map (\<lambda>x. if f x = f (xs ! k) then g x else x) xs ! j"
    by (simp add: nth_list_update)
qed simp

lemma send_to_others:
  assumes "fv_inv (connections s)" and "distinct (conn_ids s)" and "target \<noteq> conn_id c"
  obtains v where "send_to os text target (c, s) = (c, s\<lparr>connections := v\<rparr>)" "fv_inv v"
    "fv_capacity v = fv_capacity (connections s)"
    "fv_list v = send_in_list text target (fv_list (connections s))"
proof (cases "lock_slot target s")
  case None
  then have "target \<notin> conn_id ` set (fv_list (connections s))" using lock_slot_None [OF assms(1)] by blast
  then have "send_in_list text target (fv_list (connections s)) = fv_list (connections s)"
    unfolding send_in_list_def by (intro map_idI) auto
  with None assms(1,3) show ?thesis by (intro that [of "connections s"]) (simp_all add: send_to_def)
next
  case (Some k)
  let ?cs = "fv_list (connections s)" and ?v = "fv_set k (after_send text (fv_list (connections s) ! k)) (connections s)"
  note k = lock_slot_Some [OF assms(1) Some]
  have "send_to os text target (c, s) = (c, s\<lparr>connections := ?v\<rparr>)"
    using Some k(2) assms(3) by (simp add: send_to_def quiet_send put_back_def)
  moreover have "fv_list ?v = send_in_list text target ?cs"
    using update_unique [of conn_id ?cs k "after_send text"] assms(1,2) k
    by (simp add: fv_set_list conn_ids_def send_in_list_def)
  ultimately show ?thesis using assms(1) k(1) by (intro that [of ?v]) (simp_all add: fv_set_inv)
qed

section \<open>The whole loop\<close>

definition sent_times :: "bytes \<Rightarrow> u64 list \<Rightarrow> Connection \<Rightarrow> Connection" where
  "sent_times text l t = (after_send text ^^ count_list l (conn_id t)) t"

lemma sent_times_Cons: "sent_times text l (if conn_id t = a then after_send text t else t) = sent_times text (a # l) t"
  by (simp add: sent_times_def funpow_swap1)

lemma sent_times_id [simp]: "conn_id (sent_times text l t) = conn_id t"
proof -
  have "conn_id ((after_send text ^^ n) t) = conn_id t" for n by (induction n) simp_all
  then show ?thesis by (simp add: sent_times_def)
qed

lemma sent_times_none: "conn_id t \<notin> set l \<Longrightarrow> sent_times text l t = t"
  by (simp add: sent_times_def count_list_0_iff)

lemma sent_times_once: "distinct l \<Longrightarrow> conn_id t \<in> set l \<Longrightarrow> sent_times text l t = after_send text t"
proof -
  have "distinct l \<Longrightarrow> count_list l x = (if x \<in> set l then 1 else 0)" for x by (induction l) auto
  then show "distinct l \<Longrightarrow> conn_id t \<in> set l \<Longrightarrow> sent_times text l t = after_send text t"
    by (simp add: sent_times_def)
qed

lemma broadcast_loop:
  assumes "fv_inv (connections s)" and "distinct (conn_ids s)"
  shows "\<exists>v. fold (send_to os text) l (c, s) = (sent_times text l c, s\<lparr>connections := v\<rparr>) \<and> fv_inv v \<and>
    fv_capacity v = fv_capacity (connections s) \<and>
    fv_list v = map (\<lambda>t. if conn_id t = conn_id c then t else sent_times text l t) (fv_list (connections s))"
  using assms
proof (induction l arbitrary: c s)
  case Nil
  have "map (\<lambda>t. if conn_id t = conn_id c then t else sent_times text [] t) (fv_list (connections s)) = fv_list (connections s)"
    by (intro map_idI) (simp add: sent_times_none)
  with Nil show ?case by (intro exI [of _ "connections s"]) (simp add: sent_times_none)
next
  case (Cons a l)
  show ?case
  proof (cases "a = conn_id c")
    case True
    obtain v where v: "fold (send_to os text) l (after_send text c, s) = (sent_times text l (after_send text c), s\<lparr>connections := v\<rparr>)"
      "fv_inv v" "fv_capacity v = fv_capacity (connections s)"
      "fv_list v = map (\<lambda>t. if conn_id t = conn_id c then t else sent_times text l t) (fv_list (connections s))"
      using Cons.IH [OF Cons.prems, of "after_send text c"] by auto
    have "sent_times text l (after_send text c) = sent_times text (a # l) c"
      using True sent_times_Cons [of "text" l c a] by simp
    moreover have "fv_list v = map (\<lambda>t. if conn_id t = conn_id c then t else sent_times text (a # l) t) (fv_list (connections s))"
      using True v(4) by (simp add: sent_times_def)
    moreover have "send_to os text a (c, s) = (after_send text c, s)" using True by (simp add: send_to_def quiet_send)
    ultimately show ?thesis using v(1-3) by (intro exI [of _ v]) simp
  next
    case False
    obtain v where v: "send_to os text a (c, s) = (c, s\<lparr>connections := v\<rparr>)" "fv_inv v"
      "fv_capacity v = fv_capacity (connections s)" "fv_list v = send_in_list text a (fv_list (connections s))"
      using send_to_others [OF Cons.prems False] .
    let ?s = "s\<lparr>connections := v\<rparr>"
    have "conn_ids ?s = conn_ids s" by (simp add: conn_ids_def v(4) send_in_list_def)
    then have "distinct (conn_ids ?s)" using Cons.prems(2) by simp
    moreover have "sent_times text (a # l) c = sent_times text l c" using False by (simp add: sent_times_def)
    moreover have "map (\<lambda>t. if conn_id t = conn_id c then t else sent_times text l t) (fv_list v) =
        map (\<lambda>t. if conn_id t = conn_id c then t else sent_times text (a # l) t) (fv_list (connections s))"
      using False by (auto simp: v(4) send_in_list_def sent_times_Cons)
    ultimately show ?thesis using Cons.IH [of ?s c] v by simp
  qed
qed

section \<open>The callbacks keep to the interface\<close>

lemma send_to_moves:
  "api_steps e (fst st) (fst (send_to os text target st))" "peers_evolve e (snd st) (snd (send_to os text target st))"
proof -
  obtain c s where st: "st = (c, s)" by (cases st)
  show "api_steps e (fst st) (fst (send_to os text target st))"
    using after_send_api by (auto simp: st send_to_def quiet_send split: option.split)
  have "peers_evolve e s (put_back k (after_send text t, s))" if "fv_at (connections s) k = Some t" for k t
  proof -
    have "k < length (fv_storage (connections s))" "fv_storage (connections s) ! k = Some t"
      using that by (auto simp: fv_at_def fv_capacity_def split: if_splits)
    then have "list_all2 (rel_option (api_steps e)) (fv_storage (connections s))
        ((fv_storage (connections s))[k := Some (after_send text t)])"
      using after_send_api [of e t "text"]
      by (auto simp: list_all2_conv_all_nth nth_list_update intro: option.rel_refl)
    then show ?thesis by (simp add: peers_evolve_def put_back_def fv_set_def)
  qed
  then show "peers_evolve e (snd st) (snd (send_to os text target st))"
    by (auto simp: st send_to_def quiet_send peers_refl split: option.split)
qed

lemma fold_send_moves:
  "api_steps e (fst st) (fst (fold (send_to os text) l st)) \<and> peers_evolve e (snd st) (snd (fold (send_to os text) l st))"
proof (induction l arbitrary: st)
  case (Cons a l)
  show ?case using send_to_moves [of e st os "text" a] Cons.IH [of "send_to os text a st"]
    by (auto intro: rtranclp_trans peers_trans)
qed (simp add: peers_refl)

lemma broadcast_moves:
  "api_steps e c (fst (broadcast_on_message os msg (c, s)))" "peers_evolve e s (snd (broadcast_on_message os msg (c, s)))"
  using fold_send_moves [of e "(c, s)" os] by (simp_all add: broadcast_on_message_def)

lemma broadcast_callbacks_ok: "server_callbacks os (broadcast_callbacks os)"
proof -
  let ?e = "conn_env os (broadcast_callbacks os)"
  have "user_callbacks ?e"
    by (auto simp: user_callbacks_def uses_api_def broadcast_callbacks_def broadcast_on_connect_def
        broadcast_moves(1) broadcast_on_close_def split: prod.split)
  moreover have "cbs_move (peers_evolve ?e) ?e"
    by (auto simp: cbs_move_def cb_moves_def broadcast_callbacks_def broadcast_on_connect_def
        broadcast_moves(2) broadcast_on_close_def set_list_def peers_outside peers_refl split: prod.split)
  ultimately show ?thesis by (simp add: server_callbacks_def)
qed

section \<open>What clients get\<close>

text \<open>C14: A broadcast reaches every listed client once: with distinct identifiers and a list without
  repetition, \<^verbatim>\<open>on_message\<close> sends the text, made of the sender's identifier and the message, to the
  sender if it is listed and to every other connection of the server that is listed, and changes no
  other connection, whatever entries of closed clients the list still has. A client that is open and
  has room for the frame has it queued behind what was there; the list and the rest of the world
  stay as they are.\<close>

theorem broadcast_delivers:
  assumes "server_inv s" and "distinct (conn_ids s)" and "distinct (broadcast_list (outside s))"
    and "broadcast_text (conn_id c) msg = text"
  shows "\<exists>c' s'. broadcast_on_message os msg (c, s) = (c', s') \<and> outside s' = outside s \<and> server_inv s' \<and>
    c' = (if conn_id c \<in> set (broadcast_list (outside s)) then after_send text c else c) \<and>
    fv_list (connections s') = map (\<lambda>t. if conn_id t \<noteq> conn_id c \<and> conn_id t \<in> set (broadcast_list (outside s))
      then after_send text t else t) (fv_list (connections s)) \<and>
    (\<forall>t \<in> insert c (set (fv_list (connections s))).
       conn_ops t = kOpen \<and> length (rb_contents (tx_buffer t)) + length (wire_frame kText None text) \<le> 8192 \<and> conn_inv t \<longrightarrow>
       rb_contents (tx_buffer (after_send text t)) = rb_contents (tx_buffer t) @ wire_frame kText None text)"
proof -
  let ?l = "broadcast_list (outside s)"
  have inv: "fv_inv (connections s)" using assms(1) by (simp add: server_inv_def)
  from broadcast_loop [OF inv assms(2), of os "text" ?l c] obtain v where
    run: "broadcast_on_message os msg (c, s) = (sent_times text ?l c, s\<lparr>connections := v\<rparr>)"
    and v: "fv_list v = map (\<lambda>t. if conn_id t = conn_id c then t else sent_times text ?l t) (fv_list (connections s))"
    using assms(4) by (auto simp: broadcast_on_message_def)
  have once: "sent_times text ?l t = (if conn_id t \<in> set ?l then after_send text t else t)" for t
    using sent_times_none [of t ?l "text"] sent_times_once [OF assms(3), of t "text"] by simp
  have "server_inv (snd (broadcast_on_message os msg (c, s)))"
    using broadcast_moves(2) [of "conn_env os no_callbacks" s os msg c] assms(1) by (rule peers_inv)
  moreover have "rb_contents (tx_buffer (after_send text t)) = rb_contents (tx_buffer t) @ wire_frame kText None text"
    if "conn_ops t = kOpen" "length (rb_contents (tx_buffer t)) + length (wire_frame kText None text) \<le> 8192" "conn_inv t" for t
    using after_send_queues(3) [OF that(1)] that(2,3) tx_room [OF that(3)] by (simp add: conn_inv_def del: length_rb_contents)
  moreover have "fv_list v = map (\<lambda>t. if conn_id t \<noteq> conn_id c \<and> conn_id t \<in> set ?l then after_send text t else t)
      (fv_list (connections s))"
    using v once by auto
  ultimately show ?thesis using run once [of c] by (intro exI [of _ "sent_times text ?l c"] exI [of _ "s\<lparr>connections := v\<rparr>"]) auto
qed

text \<open>A server with clients 7 and 8; the list also has a client that is gone.\<close>

definition idle_os :: "'k Os" where
  "idle_os = \<lparr>
     os_now = (\<lambda>k. (0, k)), os_readv = (\<lambda>fd lens k. (RdErr EAGAIN, k)),
     os_writev = (\<lambda>fd bs k. (WrErr EAGAIN, k)), os_write = (\<lambda>fd bs k. (WrErr EAGAIN, k)),
     os_set_non_blocking = (\<lambda>fd k. k), os_close = (\<lambda>fd k. (-1, k)), os_is_open = (\<lambda>fd. 0 \<le> fd),
     os_poll = (\<lambda>fds t k. ((0, []), k)), os_accept = (\<lambda>fd k. (AcErr EAGAIN, k)), os_close_fd = (\<lambda>fd k. k),
     os_setsockopt = (\<lambda>fd opt v k. k), os_last_owner = (\<lambda>c k. True), os_socket = (\<lambda>k. (3, k)),
     os_reuse_addr = (\<lambda>fd k. k), os_bind = (\<lambda>fd p addr k. (0, k)), os_listen = (\<lambda>fd n k. (0, k))\<rparr>"

abbreviation client :: "u64 \<Rightarrow> Connection" where
  "client i \<equiv> (sample_open [] [])\<lparr>conn_id := i\<rparr>"

definition two_clients :: "unit BroadcastWorld Server" where
  "two_clients = (projr (Server_ctor idle_os 9 8080 [] \<lparr>broadcast_list = [7, 5, 8], bc_machine = ()\<rparr>))\<lparr>
     connections := snd (fv_push_back (client 8) (snd (fv_push_back (client 7) (fv_init kMaxConnections))))\<rparr>"

lemma client_inv: "conn_inv (client i)" "rb_contents (tx_buffer (client i)) = []" "conn_ops (client i) = kOpen"
  using sample_open_inv [of "[]" "[]"] by (simp_all add: conn_inv_def)

lemma two_clients_inv:
  "server_inv two_clients" "fv_list (connections two_clients) = [client 7, client 8]"
  "broadcast_list (outside two_clients) = [7, 5, 8]"
proof -
  let ?v0 = "fv_init kMaxConnections :: Connection FixedVector" and ?v1 = "snd (fv_push_back (client 7) (fv_init kMaxConnections))"
  have v0: "fv_inv ?v0" "fv_capacity ?v0 = 64" "fv_list ?v0 = []"
    by (simp_all add: fv_init_list fv_init_inv kMaxConnections_def) (simp add: fv_init_def fv_capacity_def)
  have v1: "fv_inv ?v1" "fv_capacity ?v1 = 64" "fv_list ?v1 = [client 7]"
    using fvv.push_keeps [OF v0(1), of "client 7"] fvv.push_room [OF v0(1), of "client 7"] v0 by auto
  have conns: "connections two_clients = snd (fv_push_back (client 8) ?v1)" by (simp add: two_clients_def)
  show list: "fv_list (connections two_clients) = [client 7, client 8]"
    using fvv.push_room [OF v1(1), of "client 8"] v1 by (simp add: conns)
  show "server_inv two_clients"
    using fvv.push_keeps [OF v1(1), of "client 8"] v1 list client_inv(1) by (simp add: server_inv_def kMaxConnections_def conns)
  show "broadcast_list (outside two_clients) = [7, 5, 8]"
    by (simp add: two_clients_def Server_ctor_def idle_os_def)
qed

theorem broadcast_delivers_witness:
  "\<exists>c' s'. broadcast_on_message idle_os [104, 105] (client 7, two_clients) = (c', s') \<and>
     rb_contents (tx_buffer c') = wire_frame kText None (bytes_of ''Client #7: hi'') \<and>
     rb_contents (tx_buffer (fv_list (connections s') ! 1)) = wire_frame kText None (bytes_of ''Client #7: hi'')"
proof -
  have lits: "broadcast_text 7 [104, 105] = bytes_of ''Client #7: hi''"
    "length (wire_frame kText None (bytes_of ''Client #7: hi'')) \<le> 8192" by code_simp+
  have "distinct (conn_ids two_clients)" by (simp add: conn_ids_def two_clients_inv(2))
  from broadcast_delivers [OF two_clients_inv(1) this, of "client 7" "[104, 105]" _ idle_os] lits two_clients_inv(2,3) client_inv
  show ?thesis by (auto simp del: length_rb_contents)
qed

end
