(* ===== verification/Sha1_Fips.thy ===== *)
theory Sha1_Fips
  imports Sha1
begin

text \<open>
  SHA-1 as FIPS 180-4 states it, with the rotation of the word library, words read and written
  as big-endian numbers, the message schedule as a recursion and the logical functions in their published
  form. The class of theory \<open>Sha1\<close> computes this function.
\<close>

section \<open>The standard\<close>

definition be_word :: "bytes \<Rightarrow> u32" where
  "be_word bs = word_of_nat (foldl (\<lambda>n b. n * 256 + unat b) 0 bs)"

definition word_be :: "u32 \<Rightarrow> bytes" where
  "word_be x = map (\<lambda>k. word_of_nat (unat x div 256 ^ k mod 256)) [3, 2, 1, 0]"

fun fips_W :: "bytes \<Rightarrow> nat \<Rightarrow> u32" where
  "fips_W block t =
     (if t < 16 then be_word (take 4 (drop (4 * t) block))
      else word_rotl 1 (fips_W block (t - 3) XOR fips_W block (t - 8) XOR
             fips_W block (t - 14) XOR fips_W block (t - 16)))"

declare fips_W.simps [simp del]

definition fips_f :: "nat \<Rightarrow> u32 \<Rightarrow> u32 \<Rightarrow> u32 \<Rightarrow> u32" where
  "fips_f t x y z =
     (if t \<le> 19 then (x AND y) XOR (NOT x AND z)
      else if t \<le> 39 then x XOR y XOR z
      else if t \<le> 59 then (x AND y) XOR (x AND z) XOR (y AND z)
      else x XOR y XOR z)"

definition fips_K :: "nat \<Rightarrow> u32" where
  "fips_K t = (if t \<le> 19 then 0x5a827999 else if t \<le> 39 then 0x6ed9eba1
               else if t \<le> 59 then 0x8f1bbcdc else 0xca62c1d6)"

fun fips_vars :: "bytes \<Rightarrow> vars \<Rightarrow> nat \<Rightarrow> vars" where
  "fips_vars block v 0 = v"
| "fips_vars block v (Suc t) =
     (case fips_vars block v t of (a, b, c, d, e) \<Rightarrow>
        (word_rotl 5 a + fips_f t b c d + e + fips_K t + fips_W block t, a, word_rotl 30 b, c, d))"

definition fips_compress :: "u32 list \<Rightarrow> bytes \<Rightarrow> u32 list" where
  "fips_compress hs block =
     (case fips_vars block (hs ! 0, hs ! 1, hs ! 2, hs ! 3, hs ! 4) 80 of (a, b, c, d, e) \<Rightarrow>
        [a + hs ! 0, b + hs ! 1, c + hs ! 2, d + hs ! 3, e + hs ! 4])"

definition fips_sha1 :: "bytes \<Rightarrow> bytes" where
  "fips_sha1 msg =
     concat (map word_be
       (foldl fips_compress [0x67452301, 0xefcdab89, 0x98badcfe, 0x10325476, 0xc3d2e1f0]
         (blocks (msg @ padding (length msg)))))"

section \<open>The class computes it\<close>

lemma rol_rotl:
  assumes "0 < n" and "n < 32" shows "rol x n = word_rotl n x"
proof (rule bit_word_eqI)
  fix m assume "m < LENGTH(32)"
  then have m: "m < 32" by simp
  have "(m + 32 - n) mod 32 = (if n \<le> m then m - n else 32 + m - n)"
    using assms m by (auto simp: mod_if)
  moreover have "\<not> bit x (32 + m - n)" if "n \<le> m" using that bit_imp_le_length [of x] by fastforce
  ultimately show "bit (rol x n) m \<longleftrightarrow> bit (word_rotl n x) m"
    using assms m by (auto simp: rol_def bit_simps bit_word_rotl_iff)
qed

lemma load_word_be: "4 * i + 4 \<le> length block \<Longrightarrow> load_word block i = be_word (take 4 (drop (4 * i) block))"
proof -
  assume len: "4 * i + 4 \<le> length block"
  let ?b = "\<lambda>k. block ! (4 * i + k)"
  have "take 4 (drop (4 * i) block) = [?b 0, ?b 1, ?b 2, ?b 3]"
    using len by (intro nth_equalityI) (auto simp: less_Suc_eq numeral_eq_Suc)
  moreover have "(push_bit 24 (ucast a) OR push_bit 16 (ucast b) OR push_bit 8 (ucast c) OR ucast d :: u32) =
      word_of_nat (((unat a * 256 + unat b) * 256 + unat c) * 256 + unat d)" for a b c d :: u8
  proof -
    let ?A = "ucast a :: u32" and ?B = "ucast b :: u32" and ?C = "ucast c :: u32" and ?D = "ucast d :: u32"
    have "push_bit 8 ?C AND ?D = 0" "push_bit 16 ?B AND (push_bit 8 ?C OR ?D) = 0"
      "push_bit 24 ?A AND (push_bit 16 ?B OR push_bit 8 ?C OR ?D) = 0"
      by (rule bit_word_eqI; auto simp: bit_simps dest!: bit_imp_le_length)+
    then have "push_bit 24 ?A OR push_bit 16 ?B OR push_bit 8 ?C OR ?D =
        push_bit 24 ?A + (push_bit 16 ?B + (push_bit 8 ?C + ?D))"
      by (simp add: disjunctive_add_eq_or)
    then show ?thesis by (simp add: push_bit_eq_mult algebra_simps of_nat_unat)
  qed
  ultimately show ?thesis by (simp add: load_word_def be_word_def mult.commute)
qed

lemma digest_be: "length hs = 5 \<Longrightarrow> digest hs = concat (map word_be hs)"
proof -
  have byte: "(ucast (drop_bit (8 * k) x AND 0xFF) :: u8) = word_of_nat (unat x div 256 ^ k mod 256)" for x :: u32 and k
  proof -
    have "unat (drop_bit (8 * k) x AND 0xFF) = unat x div 256 ^ k mod 256"
      using unsigned_less [of x, where ?'a = nat] unfolding and_255 unsigned_take_bit_eq unsigned_drop_bit_eq
      by (simp add: take_bit_eq_mod drop_bit_eq_div power_mult)
    then show ?thesis by (metis of_nat_unat)
  qed
  have bytes: "[ucast (drop_bit 24 x AND 0xFF), ucast (drop_bit 16 x AND 0xFF), ucast (drop_bit 8 x AND 0xFF),
      ucast (x AND 0xFF)] = word_be x" for x
    using byte [of 3 x] byte [of 2 x] byte [of 1 x] byte [of 0 x] by (simp add: word_be_def)
  assume "length hs = 5"
  then have "map (\<lambda>i. word_be (hs ! i)) [0..<5] = map word_be hs"
    by (intro nth_equalityI) simp_all
  then show ?thesis unfolding digest_def bytes by simp
qed

lemma schedule_prefix:
  assumes "length block = 64"
  shows "n \<le> 64 \<Longrightarrow> foldl schedule_step (map (load_word block) [0..<16]) [16..<16 + n] =
    map (fips_W block) [0..<16 + n]"
proof (induction n)
  case 0
  have "load_word block i = fips_W block i" if "i < 16" for i
    using assms that by (simp add: load_word_be fips_W.simps [of block i])
  then show ?case by simp
next
  case (Suc n)
  let ?w = "map (fips_W block) [0..<16 + n]"
  have "fips_W block (16 + n) =
      rol (?w ! (16 + n - 3) XOR ?w ! (16 + n - 8) XOR ?w ! (16 + n - 14) XOR ?w ! (16 + n - 16)) 1"
    by (simp add: rol_rotl fips_W.simps [of block "16 + n"] del: upt_Suc)
  moreover have "[16..<16 + Suc n] = [16..<16 + n] @ [16 + n]" "[0..<16 + Suc n] = [0..<16 + n] @ [16 + n]"
    by (simp_all only: add_Suc_right upt_Suc) simp_all
  moreover have "foldl schedule_step (map (load_word block) [0..<16]) [16..<16 + n] = ?w"
    using Suc by simp
  ultimately show ?case
    using schedule_step_def [of ?w "16 + n"] by (simp only: foldl_append foldl.simps map_append list.map)
qed

lemma schedule_fips: "length block = 64 \<Longrightarrow> i < 80 \<Longrightarrow> schedule block ! i = fips_W block i"
  using schedule_prefix [of block 64] by (simp add: schedule_def)

lemma fips_f_choice: "(b AND c) OR (NOT b AND d) = (b AND c) XOR (NOT b AND d :: u32)"
  "(b AND c) OR (b AND d) OR (c AND d) = (b AND c) XOR (b AND d) XOR (c AND d :: u32)"
  by (rule bit_word_eqI; auto simp: bit_simps)+

lemma round_step_fips:
  assumes "length block = 64" and "t < 80"
  shows "round_step (schedule block) (a, b, c, d, e) t =
    (word_rotl 5 a + fips_f t b c d + e + fips_K t + fips_W block t, a, word_rotl 30 b, c, d)"
  using assms(2)
  by (simp add: round_step_def fips_f_def fips_K_def fips_f_choice rol_rotl
      schedule_fips [OF assms] Let_def)

lemma rounds_fips:
  "length block = 64 \<Longrightarrow> n \<le> 80 \<Longrightarrow> foldl (round_step (schedule block)) v [0..<n] = fips_vars block v n"
proof (induction n)
  case (Suc n)
  obtain a b c d e where "fips_vars block v n = (a, b, c, d, e)" by (metis prod_cases5)
  with Suc show ?case by (simp add: round_step_fips)
qed simp

lemma compress_fips: "length block = 64 \<Longrightarrow> compress hs block = fips_compress hs block"
  by (simp add: compress_def process_block_def fips_compress_def rounds_fips Let_def add.commute
      split: prod.split)

lemma blocks_length: "b \<in> set (blocks xs) \<Longrightarrow> length b = 64"
  by (induction xs rule: blocks.induct) (subst (asm) (2) blocks.simps, auto split: if_splits)

lemma foldl_compress_fips:
  "\<forall>b \<in> set bs. length b = 64 \<Longrightarrow> foldl compress hs bs = foldl fips_compress hs bs"
  by (induction bs arbitrary: hs) (simp_all add: compress_fips)

lemma length_fips: "length hs = 5 \<Longrightarrow> length (foldl fips_compress hs bs) = 5"
  by (induction bs arbitrary: hs) (simp_all add: fips_compress_def split: prod.split)

lemma sha1_spec_fips: "sha1_spec msg = fips_sha1 msg"
proof -
  let ?bs = "blocks (msg @ padding (length msg))"
  have "foldl compress (sha_h sha1_init) ?bs = foldl fips_compress (sha_h sha1_init) ?bs"
    using blocks_length by (intro foldl_compress_fips) blast
  moreover have "length (foldl fips_compress (sha_h sha1_init) ?bs) = 5"
    by (rule length_fips) (simp add: sha1_init_def)
  ultimately show ?thesis by (simp add: sha1_spec_def fips_sha1_def digest_be) (simp add: sha1_init_def)
qed

section \<open>Properties\<close>

text \<open>C11: \<^verbatim>\<open>SHA1::compute\<close> is SHA-1: the streaming class, with its block buffer, its two padding
  cases and its in-place length field, computes the function of FIPS 180-4 on every message. The
  digest has 20 bytes.\<close>

theorem compute_is_sha1: "compute msg = fips_sha1 msg \<and> length (compute msg) = 20"
  by (simp add: compute_spec sha1_spec_fips [symmetric]) (simp add: compute_spec [symmetric] length_compute)

text \<open>Feeding a message to \<^verbatim>\<open>update\<close> in pieces gives the digest of the whole message.\<close>

lemma update_in_pieces: "finalize (update ys (update xs sha1_init)) = fips_sha1 (xs @ ys)"
  by (simp add: update_append [symmetric] sha1_spec_fips [symmetric] compute_spec [symmetric] compute_def)

end
