(* ===== verification/Spec2Isabelle.thy ===== *)
theory Spec2Isabelle
  imports Object_Pool Vocabulary_Types Bench_Full Bench_Driver Perf_Server Broadcast Sha1_Fips
begin

text \<open>
  EWSS, the embedded WebSocket server of \<^verbatim>\<open>src/include/ewss.hpp\<close>: a verification development.

  \<^bold>\<open>The program.\<close> A single-threaded reactor (\<^verbatim>\<open>Server\<close>) polls a listening socket and up to
  64 connections. A \<^verbatim>\<open>Connection\<close> owns a receive and a send ring buffer and a state that selects
  its handlers through a table of function pointers: it answers the HTTP upgrade request, then
  takes WebSocket frames from the receive buffer, hands messages to user callbacks and queues
  frames for sending, and finally goes through the closing handshake. Below these are the frame
  codec, SHA-1 and Base64 for the accept key, an object pool, statistics, and a set of vocabulary
  types that replace the standard library's allocating ones. The examples use the library; the
  benchmark contains a WebSocket client written independently of it.

  \<^bold>\<open>Theories.\<close>
  \<^item> \<open>Ewss_Prelude\<close>: type synonyms for machine words and bytes, the collections of simplification
    rules, and generic lemmas on lists and words.
  \<^item> \<open>Vocabulary\<close>: \<^verbatim>\<open>expected\<close>, \<^verbatim>\<open>FixedVector\<close>, \<^verbatim>\<open>optional\<close>, \<^verbatim>\<open>FixedString\<close>,
    \<^verbatim>\<open>FixedFunction\<close>, \<^verbatim>\<open>ScopeGuard\<close>. Raw storage is an option, so that reading storage in which no
    object lives is visible. The locale \<open>bounded_vector\<close> is the contract of a vector that its
    client, the removal of connections by swapping with the last one, relies on.
  \<^item> \<open>Ring_Buffer\<close>: every operation of \<^verbatim>\<open>RingBuffer\<close>; the locale \<open>byte_queue\<close> is its contract as a
    bounded queue, interpreted on the model.
  \<^item> \<open>Ws_Frame\<close>, \<open>Base64\<close>, \<open>Sha1\<close>: the codecs. \<open>Sha1_Fips\<close> gives SHA-1 as FIPS 180-4 defines it and
    shows that the streaming class computes it.
  \<^item> \<open>Object_Pool\<close>, \<open>Server_Stats\<close>: the pool and the counters, which wrap at 64 bits.
  \<^item> \<open>Handshake\<close>: the \<^verbatim>\<open>string_view\<close> searches of \<^verbatim>\<open>parse_handshake\<close>, the accept key and the
    response text.
  \<^item> \<open>Connection\<close>: the record \<open>Connection\<close> and one definition per member function and state handler.
    Operations take and return the connection together with the rest of the world \<open>'w\<close>; the
    record \<open>Env\<close> holds the clock, the socket calls and the user callbacks as functions on both.
  \<^item> \<open>Conn_Machine\<close>: the connection as a state machine. \<open>api_step\<close> is what a callback can do through
    the public interface, \<open>conn_step\<close> adds the library's own steps; each operation is a sequence of
    steps, and the invariant \<open>conn_inv\<close> and the order of states are proved per step. It also has
    the environment used for concrete runs.
  \<^item> \<open>Conn_World\<close>: how the operations change the world outside the connection.
  \<^item> \<open>Frame_Stream\<close>: the frame format as a function \<open>decode_frames\<close> on byte sequences, and the loop
    of \<^verbatim>\<open>parse_frames\<close> as dispatching its result.
  \<^item> \<open>Conn_Properties\<close>, \<open>Conn_Io\<close>: what a connection guarantees, operation by operation.
  \<^item> \<open>Server\<close>: the record \<open>Server\<close> and one definition per member function; the phases of an
    iteration of \<^verbatim>\<open>run\<close> are separate definitions composed by \<open>run_iteration\<close>. The record \<open>Os\<close>
    holds the system calls.
  \<^item> \<open>Reactor\<close>, \<open>Server_Properties\<close>: the invariant of the server, the loops over its connections,
    and what an iteration guarantees.
  \<^item> \<open>Server_Run\<close>: the reactor over many iterations: when \<^verbatim>\<open>run\<close> returns, and that the identifiers of
    connections stay distinct.
  \<^item> \<open>Vocabulary_Types\<close>: moves, copies and destructors of the vocabulary types, \<^verbatim>\<open>function_ref\<close> and
    \<^verbatim>\<open>TlsConfig\<close>, and the type invariant of storage.
  \<^item> \<open>Bench_Client\<close>, \<open>Echo\<close>, \<open>Echo_Run\<close>: the client of \<^verbatim>\<open>src/examples/benchmark_echo.cpp\<close>, and client
    and library together; the locale \<open>byte_source\<close> is what the client relies on to receive a frame.
    \<open>Bench_Session\<close> runs the client's loop against iterations of the reactor, over a network that is
    a pair of byte streams, and \<open>Bench_Full\<close> the whole client, from the constructed server over the
    accepted connection and the upgrade to its last message; \<open>Bench_Driver\<close> has the threads
    of the benchmark and their barrier as a step relation, and the aggregation of latencies with \<open>Percentile\<close>.
  \<^item> \<open>Responder\<close>: the locale \<open>responder\<close>, the contract of an \<^verbatim>\<open>on_message\<close> callback that answers each
    message with one; interpreted for the benchmark, the echo and the performance server.
  \<^item> \<open>Decimal\<close>, \<open>Example_Servers\<close>, \<open>Perf_Server\<close>, \<open>Broadcast\<close>: the programs
    \<^verbatim>\<open>src/examples/echo_server.cpp\<close>, \<^verbatim>\<open>perf_server.cpp\<close> and \<^verbatim>\<open>broadcast_server.cpp\<close> with their callbacks and
    \<^verbatim>\<open>main\<close>; each set of callbacks keeps to the public interface, so that all theorems on the server
    apply to it.

  \<^bold>\<open>What is shown.\<close> The ring buffer is a queue, also through its iovec interface. SHA-1, Base64 and
  the frame codec compute what they should, with round trips. Every reachable connection satisfies
  its invariant and only moves forward through its states; \<^verbatim>\<open>parse_frames\<close> implements the frame
  format, independently of how the network cuts the stream; what is queued is delivered in order
  and once; the upgrade is granted exactly to well-formed requests. Every reachable server respects
  its bounds; an iteration returns, removes exactly the closed connections and keeps its count of
  them; \<^verbatim>\<open>run\<close> returns exactly when it is stopped or \<^verbatim>\<open>poll\<close> fails. The benchmark's client and the library
  complete a handshake, messages come back as they were sent, a client that connects gets all its
  answers, and the benchmark ends under every schedule when all its clients connect. The example
  servers answer, count and distribute messages as they should. The storage of the vocabulary types
  is well typed. Further theorems state where the code falls short: frame lengths that wrap,
  headers queued without payload, unreported handshake failures, double close notifications and
  the count they make wrap, close frames that are never seen, timeouts that idle iterations skip,
  counters that wrap after a reset, and a benchmark that hangs when a client cannot connect.

  \<^bold>\<open>Modelling conventions.\<close>
  \<^item> Unsigned arithmetic that can wrap is on words: frame lengths, counters, timeouts and SHA-1.
    Indices into fixed arrays that the code keeps in range are natural numbers; their range is
    part of the invariants.
  \<^item> A function that may not return is a \<^verbatim>\<open>partial_function\<close> into options, so that not returning is
    the value \<^const>\<open>None\<close>: the frame loop and the reactor. All other loops are total. An access
    outside an array is a value of type \<open>fault\<close>. No fuel is used.
  \<^item> While the server works on a connection, the connection is held beside the server and written
    back to its slot afterwards; a callback acts on that connection and on the server.
  \<^item> User callbacks are arbitrary functions. Theorems that need it assume that a callback changes
    connections only through the public interface (\<open>user_callbacks\<close>, \<open>server_callbacks\<close>).
  \<^item> System calls and the socket library are parameters; what is assumed of them is stated in the
    theorem, for instance that \<^verbatim>\<open>readv\<close> stores no more than the areas given to it can hold.

  \<^bold>\<open>Not modelled.\<close> Logging and console output, among it \<^verbatim>\<open>print_result\<close> and the layout of the
  performance report, have no effect the rest depends on. The benchmark's throughput, average and
  elapsed time are floating-point quotients; its latencies are kept in nanoseconds, before their
  conversion. What the clients of the benchmark experience while they run in parallel is a parameter of
  the model of its threads; one client against the reactor is modelled in full. Allocation failure and
  \<^verbatim>\<open>std::function\<close> internals belong to the standard library. Lifetimes of connections shared with
  the user are reduced to the question whether the server holds the last reference, and a weak
  pointer to the identifier of its connection.
\<close>

end
